theory Spec2Isabelle
  imports Main "HOL-Library.Word"
begin

unbundle bit_operations_syntax

section \<open>Platform: byte order, constants of the system headers\<close>

text \<open>
  The library is a single C file, \<^verbatim>\<open>socks.c\<close>, that interposes \<^verbatim>\<open>connect(2)\<close>.
  Its only inputs besides the arguments are the system calls it makes. They are
  modelled by a record \<open>world\<close>: the state the calls read and write (\<^verbatim>\<open>errno\<close>, the
  file status flags) and, for each call whose outcome the library cannot know, a script
  of the outcomes the next calls will have. A call whose script is used up does not
  return (it blocks for ever): the model answers \<open>None\<close>.
\<close>

type_synonym byte = "8 word"

datatype endian = LittleEndian | BigEndian

text \<open>\<^verbatim>\<open>ntohl\<close>, \<^verbatim>\<open>ntohs\<close>: the identity on a big-endian host, a byte swap on a little-endian one.\<close>

definition bswap16 :: "16 word \<Rightarrow> 16 word" where
  "bswap16 x = push_bit 8 (take_bit 8 x) OR drop_bit 8 x"

definition bswap32 :: "32 word \<Rightarrow> 32 word" where
  "bswap32 x =
     push_bit 24 (take_bit 8 x) OR push_bit 16 (take_bit 8 (drop_bit 8 x))
       OR push_bit 8 (take_bit 8 (drop_bit 16 x)) OR drop_bit 24 x"

definition ntohs :: "endian \<Rightarrow> 16 word \<Rightarrow> 16 word" where
  "ntohs e x = (case e of LittleEndian \<Rightarrow> bswap16 x | BigEndian \<Rightarrow> x)"

definition ntohl :: "endian \<Rightarrow> 32 word \<Rightarrow> 32 word" where
  "ntohl e x = (case e of LittleEndian \<Rightarrow> bswap32 x | BigEndian \<Rightarrow> x)"

text \<open>The bytes an integer object occupies in memory, lowest address first.\<close>

definition store16 :: "endian \<Rightarrow> 16 word \<Rightarrow> byte list" where
  "store16 e x =
     (case e of
        LittleEndian \<Rightarrow> [ucast x, ucast (drop_bit 8 x)]
      | BigEndian \<Rightarrow> [ucast (drop_bit 8 x), ucast x])"

definition store32 :: "endian \<Rightarrow> 32 word \<Rightarrow> byte list" where
  "store32 e x =
     (case e of
        LittleEndian \<Rightarrow>
          [ucast x, ucast (drop_bit 8 x), ucast (drop_bit 16 x), ucast (drop_bit 24 x)]
      | BigEndian \<Rightarrow>
          [ucast (drop_bit 24 x), ucast (drop_bit 16 x), ucast (drop_bit 8 x), ucast x])"

text \<open>
  Constants of \<^verbatim>\<open><sys/socket.h>\<close>, \<^verbatim>\<open><netinet/in.h>\<close>, \<^verbatim>\<open><errno.h>\<close> and \<^verbatim>\<open><fcntl.h>\<close>
  (Linux, where \<^verbatim>\<open>SO_DOMAIN\<close> exists). \<^verbatim>\<open>IN_MULTICAST\<close> is the header's macro
  \<^verbatim>\<open>(((in_addr_t)(a) & 0xf0000000) == 0xe0000000)\<close>.
\<close>

definition AF_INET :: "16 word" where "AF_INET = 2"
definition AF_INET_domain :: int where "AF_INET_domain = 2"
definition SOCK_STREAM :: int where "SOCK_STREAM = 1"
definition INADDR_ANY :: "32 word" where "INADDR_ANY = 0"
definition INADDR_BROADCAST :: "32 word" where "INADDR_BROADCAST = 0xFFFFFFFF"
definition IN_MULTICAST :: "32 word \<Rightarrow> bool" where
  "IN_MULTICAST a = (a AND 0xF0000000 = 0xE0000000)"
definition EINTR :: int where "EINTR = 4"
definition EAGAIN :: int where "EAGAIN = 11"
definition ECONNREFUSED :: int where "ECONNREFUSED = 111"
definition O_NONBLOCK :: int where "O_NONBLOCK = 2048"
definition SHUT_RDWR :: int where "SHUT_RDWR = 2"
definition sizeof_sockaddr :: nat where "sizeof_sockaddr = 16"
definition sizeof_int :: nat where "sizeof_int = 4"

section \<open>Data of the program\<close>

text \<open>\<^verbatim>\<open>struct sockaddr_in\<close>: the family in host order, port and address in network order.\<close>

record sockaddr_in =
  sin_family :: "16 word"
  sin_port :: "16 word"
  sin_addr :: "32 word"

text \<open>One node of the \<^verbatim>\<open>struct addrinfo\<close> list; \<^verbatim>\<open>ai_next\<close> is the tail of the list.\<close>

record addrinfo =
  ai_addr :: sockaddr_in
  ai_addrlen :: nat

text \<open>\<^verbatim>\<open>struct socks4_request\<close> (packed, 9 bytes) and its \<^verbatim>\<open>template\<close>.\<close>

record socks4_request =
  s4_version :: byte
  s4_command :: byte
  s4_port :: "16 word"
  s4_addr :: "32 word"
  s4_user :: byte

definition template :: socks4_request where
  "template = \<lparr>s4_version = 0x04, s4_command = 0x01, s4_port = 0, s4_addr = 0, s4_user = 0x00\<rparr>"

text \<open>The object representation of a request: packed, so the fields follow one another.\<close>

definition request_bytes :: "endian \<Rightarrow> socks4_request \<Rightarrow> byte list" where
  "request_bytes e m =
     [s4_version m, s4_command m] @ store16 e (s4_port m) @ store32 e (s4_addr m) @ [s4_user m]"

definition sizeof_request :: int where "sizeof_request = 9"
definition sizeof_response :: int where "sizeof_response = 8"

text \<open>
  \<^verbatim>\<open>struct socks4_response\<close> (packed, 8 bytes) is kept as the bytes received into it;
  \<^verbatim>\<open>s4_status\<close> is the byte at offset 1.
\<close>

definition s4_status :: "byte list \<Rightarrow> byte" where
  "s4_status response = (case response of _ # st # _ \<Rightarrow> st | _ \<Rightarrow> 0)"

definition SOCKS4_REQUEST_GRANTED :: byte where "SOCKS4_REQUEST_GRANTED = 0x5A"

section \<open>The system calls\<close>

datatype sockopt = SO_TYPE | SO_DOMAIN

text \<open>What \<^verbatim>\<open>getsockopt\<close> does: fail with an \<^verbatim>\<open>errno\<close>, or store a value and its length.\<close>

datatype gso_outcome = GsoFail int | GsoOk int nat

text \<open>What \<^verbatim>\<open>connect(2)\<close> does: return 0, or return -1 and set \<^verbatim>\<open>errno\<close>.\<close>

datatype conn_outcome = ConnOk | ConnErr int

text \<open>What \<^verbatim>\<open>send\<close> does: accept that many bytes, or return -1 and set \<^verbatim>\<open>errno\<close>.\<close>

datatype send_outcome = Sent nat | SendErr int

text \<open>
  What \<^verbatim>\<open>recv\<close> does: deliver the bytes that have arrived (none: the peer has closed),
  or return -1 and set \<^verbatim>\<open>errno\<close>.
\<close>

datatype recv_outcome = RecvData "byte list" | RecvErr int

datatype event =
    EvGetsockopt int sockopt
  | EvGetfl int
  | EvSetfl int int
  | EvConnect int "sockaddr_in option" nat
  | EvSend int int
  | EvRecv int int
  | EvShutdown int int

record world =
  errno :: int
  fl :: "int \<Rightarrow> int"
  sockopts :: "int \<Rightarrow> sockopt \<Rightarrow> gso_outcome"
  shutdown_err :: "int \<Rightarrow> int option"
  conn_script :: "conn_outcome list"
  send_script :: "send_outcome list"
  recv_script :: "recv_outcome list"
  sent :: "byte list"
  rcvd :: "byte list"
  trace :: "event list"

definition log :: "event \<Rightarrow> world \<Rightarrow> world" where
  "log ev w = w\<lparr>trace := trace w @ [ev]\<rparr>"

text \<open>\<^verbatim>\<open>getsockopt(s, SOL_SOCKET, name, &opt, &optlen)\<close>: the result, \<^verbatim>\<open>opt\<close>, \<^verbatim>\<open>optlen\<close>.\<close>

definition getsockopt :: "int \<Rightarrow> sockopt \<Rightarrow> int \<Rightarrow> nat \<Rightarrow> world \<Rightarrow> int \<times> int \<times> nat \<times> world" where
  "getsockopt s name opt optlen w =
     (case sockopts w s name of
        GsoFail e \<Rightarrow> (-1, opt, optlen, (log (EvGetsockopt s name) w)\<lparr>errno := e\<rparr>)
      | GsoOk v l \<Rightarrow> (0, v, l, log (EvGetsockopt s name) w))"

text \<open>\<^verbatim>\<open>fcntl(s, F_GETFL)\<close> and \<^verbatim>\<open>fcntl(s, F_SETFL, v)\<close> on an open descriptor.\<close>

definition fcntl_getfl :: "int \<Rightarrow> world \<Rightarrow> int \<times> world" where
  "fcntl_getfl s w = (fl w s, log (EvGetfl s) w)"

definition fcntl_setfl :: "int \<Rightarrow> int \<Rightarrow> world \<Rightarrow> world" where
  "fcntl_setfl s v w = (log (EvSetfl s v) w)\<lparr>fl := (fl w)(s := v)\<rparr>"

text \<open>\<^verbatim>\<open>shutdown(s, how)\<close>; the library ignores its result, but it may set \<^verbatim>\<open>errno\<close>.\<close>

definition shutdown :: "int \<Rightarrow> int \<Rightarrow> world \<Rightarrow> world" where
  "shutdown s how w =
     (case shutdown_err w s of
        None \<Rightarrow> log (EvShutdown s how) w
      | Some e \<Rightarrow> (log (EvShutdown s how) w)\<lparr>errno := e\<rparr>)"

text \<open>The real \<^verbatim>\<open>connect(2)\<close>, found by \<^verbatim>\<open>dlsym(RTLD_NEXT, "connect")\<close> in \<^verbatim>\<open>_init\<close>.\<close>

definition real_connect :: "int \<Rightarrow> sockaddr_in option \<Rightarrow> nat \<Rightarrow> world \<Rightarrow> (int \<times> world) option" where
  "real_connect s addr len w =
     (case conn_script w of
        [] \<Rightarrow> None
      | out # rest \<Rightarrow>
          (let w1 = (log (EvConnect s addr len) w)\<lparr>conn_script := rest\<rparr> in
           case out of
             ConnOk \<Rightarrow> Some (0, w1)
           | ConnErr e \<Rightarrow> Some (-1, w1\<lparr>errno := e\<rparr>)))"

text \<open>
  \<^verbatim>\<open>send(s, data, len, 0)\<close>: at most \<open>len\<close> bytes of \<open>data\<close> are accepted; \<open>sent\<close> collects
  what the socket has accepted.
\<close>

definition send :: "int \<Rightarrow> byte list \<Rightarrow> int \<Rightarrow> world \<Rightarrow> (int \<times> world) option" where
  "send s data len w =
     (case send_script w of
        [] \<Rightarrow> None
      | out # rest \<Rightarrow>
          (let w1 = (log (EvSend s len) w)\<lparr>send_script := rest\<rparr> in
           case out of
             Sent n \<Rightarrow>
               (let r = min (int n) len in
                Some (r, w1\<lparr>sent := sent w @ take (nat r) data\<rparr>))
           | SendErr e \<Rightarrow> Some (-1, w1\<lparr>errno := e\<rparr>)))"

text \<open>
  \<^verbatim>\<open>recv(s, data, len, 0)\<close>: at most \<open>len\<close> bytes are stored at \<open>data\<close>; the model returns
  them beside the result, and \<open>rcvd\<close> collects what the socket has delivered.
\<close>

definition recv :: "int \<Rightarrow> int \<Rightarrow> world \<Rightarrow> (int \<times> byte list \<times> world) option" where
  "recv s len w =
     (case recv_script w of
        [] \<Rightarrow> None
      | out # rest \<Rightarrow>
          (let w1 = (log (EvRecv s len) w)\<lparr>recv_script := rest\<rparr> in
           case out of
             RecvData bs \<Rightarrow>
               (let d = take (nat len) bs in
                Some (int (length d), d, w1\<lparr>rcvd := rcvd w @ d\<rparr>))
           | RecvErr e \<Rightarrow> Some (-1, [], w1\<lparr>errno := e\<rparr>)))"

section \<open>The library\<close>

text \<open>
  \<^verbatim>\<open>do_complete_send\<close>: the loop \<^verbatim>\<open>while (len > 0)\<close>, one \<^verbatim>\<open>send\<close> per round.
  \<open>data\<close> is the buffer from the cursor on.
\<close>

function do_complete_send :: "int \<Rightarrow> byte list \<Rightarrow> int \<Rightarrow> world \<Rightarrow> (int \<times> world) option" where
  "do_complete_send s data len w =
     (if len > 0 then
        (case send s data len w of
           None \<Rightarrow> None
         | Some (r, w1) \<Rightarrow>
             if r < 0 \<and> errno w1 \<noteq> EINTR \<and> errno w1 \<noteq> EAGAIN then Some (-1, w1)
             else if r > 0 then do_complete_send s (drop (nat r) data) (len - r) w1
             else do_complete_send s data len w1)
      else Some (0, w))"
  by pat_completeness auto
termination
  by (relation "measure (\<lambda>(s, data, len, w). length (send_script w))")
     (auto simp: send_def log_def Let_def split: list.splits send_outcome.splits)

text \<open>
  \<^verbatim>\<open>do_complete_recv\<close>: \<open>buf\<close> is what has been stored before the cursor. The result is
  \<^verbatim>\<open>len != 0\<close> after the loop, or -1.
\<close>

function do_complete_recv :: "int \<Rightarrow> byte list \<Rightarrow> int \<Rightarrow> world \<Rightarrow> (int \<times> byte list \<times> world) option" where
  "do_complete_recv s buf len w =
     (if len > 0 then
        (case recv s len w of
           None \<Rightarrow> None
         | Some (r, d, w1) \<Rightarrow>
             if r < 0 \<and> errno w1 \<noteq> EINTR \<and> errno w1 \<noteq> EAGAIN then Some (-1, buf, w1)
             else if r = 0 then Some (if len \<noteq> 0 then 1 else 0, buf, w1)
             else if r > 0 then do_complete_recv s (buf @ d) (len - r) w1
             else do_complete_recv s buf len w1)
      else Some (if len \<noteq> 0 then 1 else 0, buf, w))"
  by pat_completeness auto
termination
  by (relation "measure (\<lambda>(s, buf, len, w). length (recv_script w))")
     (auto simp: recv_def log_def Let_def split: list.splits recv_outcome.splits)

text \<open>
  The loop over the proxy's addresses,
  \<^verbatim>\<open>while (server && real_connect(s, server->ai_addr, server->ai_addrlen)) server = server->ai_next\<close>.
  The result is \<^verbatim>\<open>server\<close> after the loop: the rest of the list from the node that
  accepted on, or the empty list (\<^verbatim>\<open>NULL\<close>).
\<close>

fun try_servers :: "int \<Rightarrow> addrinfo list \<Rightarrow> world \<Rightarrow> (addrinfo list \<times> world) option" where
  "try_servers s [] w = Some ([], w)"
| "try_servers s (server # ai_next) w =
     (case real_connect s (Some (ai_addr server)) (ai_addrlen server) w of
        None \<Rightarrow> None
      | Some (r, w1) \<Rightarrow>
          if r \<noteq> 0 then try_servers s ai_next w1 else Some (server # ai_next, w1))"

text \<open>The label \<^verbatim>\<open>pass:\<close>.\<close>

definition goto_pass :: "int \<Rightarrow> int \<Rightarrow> sockaddr_in option \<Rightarrow> nat \<Rightarrow> world \<Rightarrow> (int \<times> world) option" where
  "goto_pass saved_errno s addr len w = real_connect s addr len (w\<lparr>errno := saved_errno\<rparr>)"

text \<open>The label \<^verbatim>\<open>error:\<close>.\<close>

definition goto_error :: "int \<Rightarrow> int \<Rightarrow> world \<Rightarrow> (int \<times> world) option" where
  "goto_error s flags w =
     (let saved_errno = (if errno w \<noteq> 0 then errno w else ECONNREFUSED);
          w1 = fcntl_setfl s flags w;
          w2 = shutdown s SHUT_RDWR w1
      in Some (-1, w2\<lparr>errno := saved_errno\<rparr>))"

text \<open>From \<^verbatim>\<open>/* connected, ask SOCKS server for connection */\<close> to \<^verbatim>\<open>return 0\<close>.\<close>

definition negotiate :: "endian \<Rightarrow> int \<Rightarrow> sockaddr_in \<Rightarrow> int \<Rightarrow> world \<Rightarrow> (int \<times> world) option" where
  "negotiate e s sa flags w =
     (let message = template\<lparr>s4_port := sin_port sa, s4_addr := sin_addr sa\<rparr> in
      case do_complete_send s (request_bytes e message) sizeof_request w of
        None \<Rightarrow> None
      | Some (r, w1) \<Rightarrow>
          if r \<noteq> 0 then goto_error s flags w1
          else
            (case do_complete_recv s [] sizeof_response w1 of
               None \<Rightarrow> None
             | Some (r', response, w2) \<Rightarrow>
                 if r' \<noteq> 0 then goto_error s flags w2
                 else if s4_status response \<noteq> SOCKS4_REQUEST_GRANTED then goto_error s flags w2
                 else Some (0, fcntl_setfl s flags w2)))"

text \<open>
  \<^verbatim>\<open>/* store current flags */\<close> and \<^verbatim>\<open>/* and disable non-blocking behaviour */\<close>:
  the value of \<^verbatim>\<open>flags\<close>, and the world after the two calls of \<^verbatim>\<open>fcntl\<close>.
\<close>

definition store_flags :: "int \<Rightarrow> world \<Rightarrow> int \<times> world" where
  "store_flags s w =
     (let (flags, w1) = fcntl_getfl s w
      in (flags, fcntl_setfl s (flags AND NOT O_NONBLOCK) w1))"

text \<open>From \<^verbatim>\<open>/* use socks proxy */\<close> on.\<close>

definition use_socks :: "endian \<Rightarrow> addrinfo list \<Rightarrow> int \<Rightarrow> sockaddr_in \<Rightarrow> world \<Rightarrow> (int \<times> world) option" where
  "use_socks e socks_server s sa w =
     (let (flags, w2) = store_flags s w
      in case try_servers s socks_server w2 of
           None \<Rightarrow> None
         | Some (server, w3) \<Rightarrow>
             if server = [] then goto_error s flags w3 else negotiate e s sa flags w3)"

text \<open>
  \<^verbatim>\<open>connect\<close>. \<open>e\<close> is the byte order of the host and \<open>socks_server\<close> the list \<^verbatim>\<open>_init\<close> has
  resolved (empty: \<^verbatim>\<open>NULL\<close>). \<open>addr\<close> is \<^verbatim>\<open>_in\<close>, \<open>None\<close> for a null pointer; \<open>the addr\<close> is
  read only behind the test \<open>addr = None\<close>, as \<^verbatim>\<open>_in->sa_family\<close> is behind \<^verbatim>\<open>!_in\<close>.
\<close>

definition connect :: "endian \<Rightarrow> addrinfo list \<Rightarrow> int \<Rightarrow> sockaddr_in option \<Rightarrow> nat \<Rightarrow> world \<Rightarrow> (int \<times> world) option" where
  "connect e socks_server s addr len w =
     (let saved_errno = errno w in
      if socks_server = [] \<or> s < 0 \<or> addr = None \<or> len < sizeof_sockaddr
           \<or> sin_family (the addr) \<noteq> AF_INET
      then goto_pass saved_errno s addr len w
      else
        (let sa = the addr; ip = sin_addr sa in
         if ip = INADDR_ANY \<or> ip = INADDR_BROADCAST \<or> IN_MULTICAST ip
              \<or> drop_bit 24 (ntohl e ip) = 127
         then goto_pass saved_errno s addr len w
         else
           (let (r1, opt1, optlen1, w1) = getsockopt s SO_TYPE (-1) sizeof_int w in
            if r1 < 0 \<or> optlen1 \<noteq> sizeof_int \<or> opt1 \<noteq> SOCK_STREAM
            then goto_pass saved_errno s addr len w1
            else
              (let (r2, opt2, optlen2, w2) = getsockopt s SO_DOMAIN (-1) sizeof_int w1 in
               if r2 < 0 \<or> optlen2 \<noteq> sizeof_int \<or> opt2 \<noteq> AF_INET_domain
               then goto_pass saved_errno s addr len w2
               else use_socks e socks_server s sa w2))))"

section \<open>Notions the statements use\<close>

text \<open>
  The request as the protocol writes it: version 4, command 1, the port and the address
  as numbers, most significant byte first, and an empty user id. The port and the address
  as numbers are \<^verbatim>\<open>ntohs(sin_port)\<close> and \<^verbatim>\<open>ntohl(sin_addr.s_addr)\<close>.
\<close>

definition be16 :: "16 word \<Rightarrow> byte list" where
  "be16 x = [ucast (drop_bit 8 x), ucast x]"

definition be32 :: "32 word \<Rightarrow> byte list" where
  "be32 x = [ucast (drop_bit 24 x), ucast (drop_bit 16 x), ucast (drop_bit 8 x), ucast x]"

definition socks4_connect_message :: "endian \<Rightarrow> sockaddr_in \<Rightarrow> byte list" where
  "socks4_connect_message e sa =
     [0x04, 0x01] @ be16 (ntohs e (sin_port sa)) @ be32 (ntohl e (sin_addr sa)) @ [0x00]"

text \<open>The first octet of the address, as \<^verbatim>\<open>a.b.c.d\<close> is written.\<close>

definition first_octet :: "endian \<Rightarrow> sockaddr_in \<Rightarrow> 32 word" where
  "first_octet e sa = drop_bit 24 (ntohl e (sin_addr sa))"

text \<open>The value of \<^verbatim>\<open>errno\<close> after a call with the given outcome, from its value before.\<close>

definition conn_errno :: "conn_outcome \<Rightarrow> int \<Rightarrow> int" where
  "conn_errno out e0 = (case out of ConnOk \<Rightarrow> e0 | ConnErr e \<Rightarrow> e)"

definition send_errno :: "send_outcome \<Rightarrow> int \<Rightarrow> int" where
  "send_errno out e0 = (case out of Sent n \<Rightarrow> e0 | SendErr e \<Rightarrow> e)"

definition recv_errno :: "recv_outcome \<Rightarrow> int \<Rightarrow> int" where
  "recv_errno out e0 = (case out of RecvData bs \<Rightarrow> e0 | RecvErr e \<Rightarrow> e)"

text \<open>An outcome that transfers bytes, and one that reports a transient condition.\<close>

definition send_progress :: "send_outcome \<Rightarrow> bool" where
  "send_progress out = (case out of Sent n \<Rightarrow> 0 < n | SendErr e \<Rightarrow> False)"

definition send_transient :: "send_outcome \<Rightarrow> bool" where
  "send_transient out = (case out of Sent n \<Rightarrow> False | SendErr e \<Rightarrow> e = EINTR \<or> e = EAGAIN)"

definition recv_progress :: "recv_outcome \<Rightarrow> bool" where
  "recv_progress out = (case out of RecvData bs \<Rightarrow> bs \<noteq> [] | RecvErr e \<Rightarrow> False)"

definition recv_transient :: "recv_outcome \<Rightarrow> bool" where
  "recv_transient out = (case out of RecvData bs \<Rightarrow> False | RecvErr e \<Rightarrow> e = EINTR \<or> e = EAGAIN)"

text \<open>An outcome that ends the loop at once: an error that is not transient, the peer's close.\<close>

definition send_ends :: "send_outcome \<Rightarrow> bool" where
  "send_ends out = (case out of Sent n \<Rightarrow> False | SendErr e \<Rightarrow> e \<noteq> EINTR \<and> e \<noteq> EAGAIN)"

definition recv_ends :: "recv_outcome \<Rightarrow> bool" where
  "recv_ends out = (case out of RecvData bs \<Rightarrow> bs = [] | RecvErr e \<Rightarrow> e \<noteq> EINTR \<and> e \<noteq> EAGAIN)"

text \<open>
  What the specification asks of the two loops, written over the outcomes to come and the
  number of bytes still to move, without the program's state. A round asks for all the
  bytes that are missing. A transfer of \<open>k > 0\<close> bytes moves the cursor by \<open>k\<close> and the loop
  goes on for the rest; a transient error (and a \<^verbatim>\<open>send\<close> that returns 0) repeats the round
  with the cursor where it was; any other error ends the loop with -1, and a zero-length
  read ends the read loop with 1. The result is 0 once nothing is missing. No outcome
  left while bytes are missing: the loop waits in the system call (\<open>None\<close>).

  The value is: the result, what has been moved (for the write loop the number of bytes
  taken from the buffer, for the read loop the bytes stored), the number of bytes each
  round has asked for, and the outcomes not used.
\<close>

definition write_round ::
  "nat \<Rightarrow> nat \<Rightarrow> (int \<times> nat \<times> nat list \<times> send_outcome list) option
     \<Rightarrow> (int \<times> nat \<times> nat list \<times> send_outcome list) option" where
  "write_round asked k rest =
     map_option (\<lambda>(r, moved, rounds, outs). (r, k + moved, asked # rounds, outs)) rest"

fun complete_write_spec ::
  "send_outcome list \<Rightarrow> nat \<Rightarrow> (int \<times> nat \<times> nat list \<times> send_outcome list) option" where
  "complete_write_spec outs 0 = Some (0, 0, [], outs)"
| "complete_write_spec [] (Suc m) = None"
| "complete_write_spec (Sent n # outs) (Suc m) =
     (if n = 0 then write_round (Suc m) 0 (complete_write_spec outs (Suc m))
      else write_round (Suc m) (min n (Suc m)) (complete_write_spec outs (Suc m - n)))"
| "complete_write_spec (SendErr x # outs) (Suc m) =
     (if x = EINTR \<or> x = EAGAIN
      then write_round (Suc m) 0 (complete_write_spec outs (Suc m))
      else Some (-1, 0, [Suc m], outs))"

definition read_round ::
  "nat \<Rightarrow> byte list \<Rightarrow> (int \<times> byte list \<times> nat list \<times> recv_outcome list) option
     \<Rightarrow> (int \<times> byte list \<times> nat list \<times> recv_outcome list) option" where
  "read_round asked d rest =
     map_option (\<lambda>(r, moved, rounds, outs). (r, d @ moved, asked # rounds, outs)) rest"

fun complete_read_spec ::
  "recv_outcome list \<Rightarrow> nat \<Rightarrow> (int \<times> byte list \<times> nat list \<times> recv_outcome list) option" where
  "complete_read_spec outs 0 = Some (0, [], [], outs)"
| "complete_read_spec [] (Suc m) = None"
| "complete_read_spec (RecvData bs # outs) (Suc m) =
     (if bs = [] then Some (1, [], [Suc m], outs)
      else read_round (Suc m) (take (Suc m) bs) (complete_read_spec outs (Suc m - length bs)))"
| "complete_read_spec (RecvErr x # outs) (Suc m) =
     (if x = EINTR \<or> x = EAGAIN
      then read_round (Suc m) [] (complete_read_spec outs (Suc m))
      else Some (-1, [], [Suc m], outs))"

text \<open>What a run of each loop shows of itself: its result and what it has done to the world.\<close>

definition write_seen :: "(int \<times> world) option \<Rightarrow> (int \<times> byte list \<times> event list \<times> send_outcome list) option" where
  "write_seen run = map_option (\<lambda>(r, w'). (r, sent w', trace w', send_script w')) run"

definition read_seen ::
  "(int \<times> byte list \<times> world) option
     \<Rightarrow> (int \<times> byte list \<times> byte list \<times> event list \<times> recv_outcome list) option" where
  "read_seen run =
     map_option (\<lambda>(r, buf', w'). (r, buf', rcvd w', trace w', recv_script w')) run"

text \<open>The call of the real \<^verbatim>\<open>connect\<close> on socket \<open>s\<close> for one node of the list.\<close>

definition connect_event :: "int \<Rightarrow> addrinfo \<Rightarrow> event" where
  "connect_event s server = EvConnect s (Some (ai_addr server)) (ai_addrlen server)"

definition refused :: "conn_outcome \<Rightarrow> bool" where
  "refused out = (case out of ConnOk \<Rightarrow> False | ConnErr e \<Rightarrow> True)"

text \<open>
  How many of the addresses refuse before one accepts (all of them: the length of the
  list), read off the outcomes the next calls of the real \<^verbatim>\<open>connect\<close> will have.
\<close>

definition refusals :: "addrinfo list \<Rightarrow> world \<Rightarrow> nat" where
  "refusals servers w = length (takeWhile refused (take (length servers) (conn_script w)))"

section \<open>Worlds and requests for the examples\<close>

text \<open>
  A little-endian host where every descriptor is an IPv4 stream socket opened read-write,
  \<^verbatim>\<open>errno\<close> is 0 and no outcome is scripted yet; the proxy \<^verbatim>\<open>10.0.0.1:1080\<close>; the
  target \<^verbatim>\<open>1.2.3.4:80\<close>, as a little-endian host reads the fields.
\<close>

definition tcp_world :: world where
  "tcp_world =
     \<lparr>errno = 0, fl = (\<lambda>s. 2),
      sockopts = (\<lambda>s name. case name of SO_TYPE \<Rightarrow> GsoOk 1 4 | SO_DOMAIN \<Rightarrow> GsoOk 2 4),
      shutdown_err = (\<lambda>s. None),
      conn_script = [], send_script = [], recv_script = [],
      sent = [], rcvd = [], trace = []\<rparr>"

definition proxy :: addrinfo where
  "proxy = \<lparr>ai_addr = \<lparr>sin_family = 2, sin_port = 0x3804, sin_addr = 0x0100000A\<rparr>, ai_addrlen = 16\<rparr>"

definition target :: sockaddr_in where
  "target = \<lparr>sin_family = 2, sin_port = 0x5000, sin_addr = 0x04030201\<rparr>"

text \<open>A second address of the proxy, \<^verbatim>\<open>10.0.0.2:1080\<close>, and the target \<^verbatim>\<open>224.0.0.1:80\<close>.\<close>

definition proxy2 :: addrinfo where
  "proxy2 = \<lparr>ai_addr = \<lparr>sin_family = 2, sin_port = 0x3804, sin_addr = 0x0200000A\<rparr>, ai_addrlen = 16\<rparr>"

definition multicast_target :: sockaddr_in where
  "multicast_target = \<lparr>sin_family = 2, sin_port = 0x5000, sin_addr = 0x010000E0\<rparr>"

section \<open>The system calls, one at a time\<close>

declare do_complete_send.simps [simp del] do_complete_recv.simps [simp del]

lemma send_step:
  assumes "send s data len w = Some (r, w1)"
  shows "(\<exists>n. send_script w = Sent n # send_script w1 \<and> r = min (int n) len
            \<and> errno w1 = errno w \<and> sent w1 = sent w @ take (nat r) data)
       \<or> (\<exists>x. send_script w = SendErr x # send_script w1 \<and> r = -1
            \<and> errno w1 = x \<and> sent w1 = sent w)"
  using assms
  by (auto simp: send_def log_def Let_def split: list.splits send_outcome.splits)

lemma send_frame:
  assumes "send s data len w = Some (r, w1)"
  shows "fl w1 = fl w \<and> rcvd w1 = rcvd w \<and> recv_script w1 = recv_script w
           \<and> conn_script w1 = conn_script w \<and> sockopts w1 = sockopts w
           \<and> shutdown_err w1 = shutdown_err w"
  using assms
  by (auto simp: send_def log_def Let_def split: list.splits send_outcome.splits)

lemma recv_step:
  assumes "recv s len w = Some (r, d, w1)"
  shows "(\<exists>bs. recv_script w = RecvData bs # recv_script w1 \<and> d = take (nat len) bs
            \<and> r = int (length d) \<and> errno w1 = errno w \<and> rcvd w1 = rcvd w @ d)
       \<or> (\<exists>x. recv_script w = RecvErr x # recv_script w1 \<and> r = -1 \<and> d = []
            \<and> errno w1 = x \<and> rcvd w1 = rcvd w)"
  using assms
  by (auto simp: recv_def log_def Let_def split: list.splits recv_outcome.splits)

lemma recv_frame:
  assumes "recv s len w = Some (r, d, w1)"
  shows "fl w1 = fl w \<and> sent w1 = sent w \<and> send_script w1 = send_script w
           \<and> conn_script w1 = conn_script w \<and> sockopts w1 = sockopts w
           \<and> shutdown_err w1 = shutdown_err w"
  using assms
  by (auto simp: recv_def log_def Let_def split: list.splits recv_outcome.splits)


lemma getsockopt_frame:
  assumes "getsockopt s name opt optlen w = (r, v, l, w1)"
  shows "fl w1 = fl w \<and> sent w1 = sent w \<and> rcvd w1 = rcvd w
       \<and> send_script w1 = send_script w \<and> recv_script w1 = recv_script w
       \<and> conn_script w1 = conn_script w \<and> sockopts w1 = sockopts w
       \<and> shutdown_err w1 = shutdown_err w
       \<and> trace w1 = trace w @ [EvGetsockopt s name]"
  using assms by (auto simp: getsockopt_def log_def split: gso_outcome.splits)

lemma real_connect_step:
  assumes "real_connect s addr len w = Some (r, w1)"
  shows "\<exists>out. conn_script w = out # conn_script w1
           \<and> errno w1 = conn_errno out (errno w)
           \<and> trace w1 = trace w @ [EvConnect s addr len]
           \<and> (r \<noteq> 0) = refused out \<and> (r = 0 \<or> r = -1)"
  using assms
  by (auto simp: real_connect_def log_def Let_def conn_errno_def refused_def
      split: list.splits conn_outcome.splits)

lemma real_connect_frame:
  assumes "real_connect s addr len w = Some (r, w1)"
  shows "fl w1 = fl w \<and> sent w1 = sent w \<and> rcvd w1 = rcvd w
       \<and> send_script w1 = send_script w \<and> recv_script w1 = recv_script w
       \<and> sockopts w1 = sockopts w \<and> shutdown_err w1 = shutdown_err w"
  using assms
  by (auto simp: real_connect_def log_def Let_def split: list.splits conn_outcome.splits)

section \<open>The two loops\<close>

text \<open>
  Induction over a run of a loop that returns: one case for each way a round can end.
\<close>

lemma do_complete_send_induct [consumes 1, case_names finished abort progress retry]:
  assumes run: "do_complete_send s data len w = Some (r, w')"
    and finished: "\<And>s data len w. \<not> 0 < len \<Longrightarrow> P s data len w 0 w"
    and abort: "\<And>s data len w r1 w1.
        0 < len \<Longrightarrow> send s data len w = Some (r1, w1) \<Longrightarrow>
        r1 < 0 \<Longrightarrow> errno w1 \<noteq> EINTR \<Longrightarrow> errno w1 \<noteq> EAGAIN \<Longrightarrow> P s data len w (-1) w1"
    and progress: "\<And>s data len w r1 w1 r w'.
        0 < len \<Longrightarrow> send s data len w = Some (r1, w1) \<Longrightarrow> 0 < r1 \<Longrightarrow>
        do_complete_send s (drop (nat r1) data) (len - r1) w1 = Some (r, w') \<Longrightarrow>
        P s (drop (nat r1) data) (len - r1) w1 r w' \<Longrightarrow> P s data len w r w'"
    and retry: "\<And>s data len w r1 w1 r w'.
        0 < len \<Longrightarrow> send s data len w = Some (r1, w1) \<Longrightarrow>
        r1 = 0 \<or> r1 < 0 \<and> (errno w1 = EINTR \<or> errno w1 = EAGAIN) \<Longrightarrow>
        do_complete_send s data len w1 = Some (r, w') \<Longrightarrow>
        P s data len w1 r w' \<Longrightarrow> P s data len w r w'"
  shows "P s data len w r w'"
  using run
proof (induction s data len w rule: do_complete_send.induct)
  case (1 s data len w)
  show ?case
  proof (cases "0 < len")
    case False
    with "1.prems" have "r = 0" "w' = w" by (simp_all add: do_complete_send.simps)
    with False finished show ?thesis by simp
  next
    case True
    from "1.prems" True obtain r1 w1 where snd: "send s data len w = Some (r1, w1)"
      by (subst (asm) do_complete_send.simps) (auto split: option.splits)
    show ?thesis
    proof (cases "r1 < 0 \<and> errno w1 \<noteq> EINTR \<and> errno w1 \<noteq> EAGAIN")
      case True
      with "1.prems" \<open>0 < len\<close> snd have "r = -1" "w' = w1"
        by (simp_all add: do_complete_send.simps [of s data len w])
      with abort [OF \<open>0 < len\<close> snd] True show ?thesis by simp
    next
      case soft: False
      show ?thesis
      proof (cases "0 < r1")
        case True
        with "1.prems" \<open>0 < len\<close> snd soft
        have rest: "do_complete_send s (drop (nat r1) data) (len - r1) w1 = Some (r, w')"
          by (simp add: do_complete_send.simps [of s data len w])
        from "1.IH"(1) [OF \<open>0 < len\<close> snd refl soft True rest]
        show ?thesis by (rule progress [OF \<open>0 < len\<close> snd True rest])
      next
        case False
        with "1.prems" \<open>0 < len\<close> snd soft
        have rest: "do_complete_send s data len w1 = Some (r, w')"
          by (auto simp add: do_complete_send.simps [of s data len w])
        from False soft
        have why: "r1 = 0 \<or> r1 < 0 \<and> (errno w1 = EINTR \<or> errno w1 = EAGAIN)" by auto
        from "1.IH"(2) [OF \<open>0 < len\<close> snd refl soft False rest]
        show ?thesis by (rule retry [OF \<open>0 < len\<close> snd why rest])
      qed
    qed
  qed
qed

lemma do_complete_recv_induct [consumes 1, case_names finished abort closed progress retry]:
  assumes run: "do_complete_recv s buf len w = Some (r, buf', w')"
    and finished: "\<And>s buf len w. \<not> 0 < len \<Longrightarrow> P s buf len w (if len \<noteq> 0 then 1 else 0) buf w"
    and abort: "\<And>s buf len w r1 d w1.
        0 < len \<Longrightarrow> recv s len w = Some (r1, d, w1) \<Longrightarrow>
        r1 < 0 \<Longrightarrow> errno w1 \<noteq> EINTR \<Longrightarrow> errno w1 \<noteq> EAGAIN \<Longrightarrow> P s buf len w (-1) buf w1"
    and closed: "\<And>s buf len w d w1.
        0 < len \<Longrightarrow> recv s len w = Some (0, d, w1) \<Longrightarrow> P s buf len w 1 buf w1"
    and progress: "\<And>s buf len w r1 d w1 r buf' w'.
        0 < len \<Longrightarrow> recv s len w = Some (r1, d, w1) \<Longrightarrow> 0 < r1 \<Longrightarrow>
        do_complete_recv s (buf @ d) (len - r1) w1 = Some (r, buf', w') \<Longrightarrow>
        P s (buf @ d) (len - r1) w1 r buf' w' \<Longrightarrow> P s buf len w r buf' w'"
    and retry: "\<And>s buf len w r1 d w1 r buf' w'.
        0 < len \<Longrightarrow> recv s len w = Some (r1, d, w1) \<Longrightarrow>
        r1 < 0 \<Longrightarrow> errno w1 = EINTR \<or> errno w1 = EAGAIN \<Longrightarrow>
        do_complete_recv s buf len w1 = Some (r, buf', w') \<Longrightarrow>
        P s buf len w1 r buf' w' \<Longrightarrow> P s buf len w r buf' w'"
  shows "P s buf len w r buf' w'"
  using run
proof (induction s buf len w rule: do_complete_recv.induct)
  case (1 s buf len w)
  show ?case
  proof (cases "0 < len")
    case False
    with "1.prems" have "r = (if len \<noteq> 0 then 1 else 0)" "buf' = buf" "w' = w"
      by (simp_all add: do_complete_recv.simps [of s buf len w])
    with False finished [of len s buf w] show ?thesis by simp
  next
    case True
    from "1.prems" True obtain r1 d w1 where rcv: "recv s len w = Some (r1, d, w1)"
      by (subst (asm) do_complete_recv.simps) (auto split: option.splits)
    show ?thesis
    proof (cases "r1 < 0 \<and> errno w1 \<noteq> EINTR \<and> errno w1 \<noteq> EAGAIN")
      case True
      with "1.prems" \<open>0 < len\<close> rcv have "r = -1" "buf' = buf" "w' = w1"
        by (simp_all add: do_complete_recv.simps [of s buf len w])
      with abort [OF \<open>0 < len\<close> rcv] True show ?thesis by simp
    next
      case soft: False
      show ?thesis
      proof (cases "r1 = 0")
        case True
        with "1.prems" \<open>0 < len\<close> rcv have "r = 1" "buf' = buf" "w' = w1"
          by (simp_all add: do_complete_recv.simps [of s buf len w])
        with closed [OF \<open>0 < len\<close>, of s w d w1 buf] rcv True show ?thesis by simp
      next
        case nz: False
        show ?thesis
        proof (cases "0 < r1")
          case True
          with "1.prems" \<open>0 < len\<close> rcv soft nz
          have rest: "do_complete_recv s (buf @ d) (len - r1) w1 = Some (r, buf', w')"
            by (simp add: do_complete_recv.simps [of s buf len w])
          from "1.IH"(1) [OF \<open>0 < len\<close> rcv refl refl soft nz True rest]
          show ?thesis by (rule progress [OF \<open>0 < len\<close> rcv True rest])
        next
          case False
          from False nz soft have neg: "r1 < 0" and why: "errno w1 = EINTR \<or> errno w1 = EAGAIN"
            by auto
          from "1.prems" \<open>0 < len\<close> rcv neg why
          have rest: "do_complete_recv s buf len w1 = Some (r, buf', w')"
            by (auto simp add: do_complete_recv.simps [of s buf len w])
          from "1.IH"(2) [OF \<open>0 < len\<close> rcv refl refl soft nz False rest]
          show ?thesis by (rule retry [OF \<open>0 < len\<close> rcv neg why rest])
        qed
      qed
    qed
  qed
qed

lemma do_complete_send_frame:
  assumes "do_complete_send s data len w = Some (r, w')"
  shows "fl w' = fl w \<and> rcvd w' = rcvd w \<and> recv_script w' = recv_script w
       \<and> conn_script w' = conn_script w \<and> sockopts w' = sockopts w
       \<and> shutdown_err w' = shutdown_err w"
  using assms
  by (induction rule: do_complete_send_induct) (auto dest: send_frame)

lemma do_complete_recv_frame:
  assumes "do_complete_recv s buf len w = Some (r, buf', w')"
  shows "fl w' = fl w \<and> sent w' = sent w \<and> send_script w' = send_script w
       \<and> conn_script w' = conn_script w \<and> sockopts w' = sockopts w
       \<and> shutdown_err w' = shutdown_err w"
  using assms
  by (induction rule: do_complete_recv_induct) (auto dest: recv_frame)

lemma do_complete_send_run:
  assumes "do_complete_send s data len w = Some (r, w')"
  shows "\<exists>used. send_script w = used @ send_script w'
           \<and> errno w' = fold send_errno used (errno w)
           \<and> (\<forall>out \<in> set (butlast used).
                 send_progress out \<or> send_transient out \<or> out = Sent 0)
           \<and> length used
               \<le> nat len + length (filter (\<lambda>out. send_transient out \<or> out = Sent 0) used)
           \<and> (r = 0 \<or> r = -1) \<and> (0 < len \<longrightarrow> used \<noteq> [])"
  using assms
proof (induction rule: do_complete_send_induct)
  case (finished s data len w)
  then show ?case by simp
next
  case (abort s data len w r1 w1)
  from send_step [OF abort(2)]
  have "\<exists>out. send_script w = out # send_script w1 \<and> errno w1 = send_errno out (errno w)"
    by (auto simp: send_errno_def)
  then obtain out
    where "send_script w = out # send_script w1" "errno w1 = send_errno out (errno w)"
    by blast
  with abort(1) show ?case by (intro exI [of _ "[out]"]) simp
next
  case (progress s data len w r1 w1 r w')
  from send_step [OF progress(2)] progress(1,3)
  have "\<exists>out. send_script w = out # send_script w1 \<and> errno w1 = send_errno out (errno w)
          \<and> send_progress out \<and> \<not> send_transient out \<and> out \<noteq> Sent 0"
    by (auto simp: send_progress_def send_transient_def send_errno_def)
  then obtain out
    where out: "send_script w = out # send_script w1" "errno w1 = send_errno out (errno w)"
      "send_progress out" "\<not> send_transient out" "out \<noteq> Sent 0"
    by blast
  from progress.IH obtain used
    where used: "send_script w1 = used @ send_script w'"
      "errno w' = fold send_errno used (errno w1)"
      "\<forall>out \<in> set (butlast used). send_progress out \<or> send_transient out \<or> out = Sent 0"
      "length used
         \<le> nat (len - r1) + length (filter (\<lambda>out. send_transient out \<or> out = Sent 0) used)"
      "r = 0 \<or> r = -1"
    by blast
  from progress(1,3) have "Suc (nat (len - r1)) \<le> nat len" by simp
  with used(4) out(4,5)
  have "length (out # used)
      \<le> nat len + length (filter (\<lambda>out. send_transient out \<or> out = Sent 0) (out # used))"
    by simp
  with out used(1,2,3,5) show ?case
    by (intro exI [of _ "out # used"]) (auto dest: in_set_butlastD)
next
  case (retry s data len w r1 w1 r w')
  from send_step [OF retry(2)] retry(1,3)
  have "\<exists>out. send_script w = out # send_script w1 \<and> errno w1 = send_errno out (errno w)
          \<and> (send_transient out \<or> out = Sent 0)"
    by (auto simp: send_transient_def send_errno_def)
  then obtain out
    where out: "send_script w = out # send_script w1" "errno w1 = send_errno out (errno w)"
      "send_transient out \<or> out = Sent 0"
    by blast
  from retry.IH obtain used
    where used: "send_script w1 = used @ send_script w'"
      "errno w' = fold send_errno used (errno w1)"
      "\<forall>out \<in> set (butlast used). send_progress out \<or> send_transient out \<or> out = Sent 0"
      "length used
         \<le> nat len + length (filter (\<lambda>out. send_transient out \<or> out = Sent 0) used)"
      "r = 0 \<or> r = -1"
    by blast
  from used(4) out(3)
  have "length (out # used)
      \<le> nat len + length (filter (\<lambda>out. send_transient out \<or> out = Sent 0) (out # used))"
    by auto
  with out used(1,2,3,5) show ?case
    by (intro exI [of _ "out # used"]) (auto dest: in_set_butlastD)
qed

lemma do_complete_send_bytes:
  assumes "do_complete_send s data len w = Some (r, w')" and "len = int (length data)"
  shows "\<exists>n. n \<le> length data \<and> sent w' = sent w @ take n data \<and> (r = 0 \<longrightarrow> n = length data)"
  using assms
proof (induction rule: do_complete_send_induct)
  case (finished s data len w)
  then show ?case by simp
next
  case (abort s data len w r1 w1)
  from send_step [OF abort(2)] abort(3) have "sent w1 = sent w"
    by auto
  then show ?case by (intro exI [of _ 0]) simp
next
  case (progress s data len w r1 w1 r w')
  from send_step [OF progress(2)] progress(1,3)
  have r1: "r1 \<le> len" and s1: "sent w1 = sent w @ take (nat r1) data"
    by auto
  with progress.prems progress(3) have "len - r1 = int (length (drop (nat r1) data))" by simp
  from progress.IH [OF this] obtain n
    where n: "n \<le> length (drop (nat r1) data)"
      "sent w' = sent w1 @ take n (drop (nat r1) data)"
      "r = 0 \<longrightarrow> n = length (drop (nat r1) data)"
    by blast
  with s1 r1 progress.prems progress(3) show ?case
    by (intro exI [of _ "nat r1 + n"]) (auto simp: take_add)
next
  case (retry s data len w r1 w1 r w')
  from send_step [OF retry(2)] retry(1,3) have "sent w1 = sent w"
    by auto
  with retry.IH [OF retry.prems] show ?case by simp
qed

lemma do_complete_recv_run:
  assumes "do_complete_recv s buf len w = Some (r, buf', w')"
  shows "\<exists>used. recv_script w = used @ recv_script w'
           \<and> errno w' = fold recv_errno used (errno w)
           \<and> (\<forall>out \<in> set (butlast used). recv_progress out \<or> recv_transient out)
           \<and> length used \<le> nat len + length (filter recv_transient used)
           \<and> (used \<noteq> [] \<and> last used = RecvData [] \<longrightarrow> r = 1)"
  using assms
proof (induction rule: do_complete_recv_induct)
  case (finished s buf len w)
  show ?case by simp
next
  case (abort s buf len w r1 d w1)
  from recv_step [OF abort(2)] abort(3)
  have "\<exists>out. recv_script w = out # recv_script w1 \<and> errno w1 = recv_errno out (errno w)
          \<and> out \<noteq> RecvData []"
    by (auto simp: recv_errno_def)
  then obtain out
    where "recv_script w = out # recv_script w1" "errno w1 = recv_errno out (errno w)"
      "out \<noteq> RecvData []"
    by blast
  with abort(1) show ?case by (intro exI [of _ "[out]"]) simp
next
  case (closed s buf len w d w1)
  from recv_step [OF closed(2)]
  have "\<exists>out. recv_script w = out # recv_script w1 \<and> errno w1 = recv_errno out (errno w)"
    by (auto simp: recv_errno_def)
  then obtain out
    where "recv_script w = out # recv_script w1" "errno w1 = recv_errno out (errno w)"
    by blast
  with closed(1) show ?case by (intro exI [of _ "[out]"]) simp
next
  case (progress s buf len w r1 d w1 r buf' w')
  from recv_step [OF progress(2)] progress(1,3)
  have "\<exists>out. recv_script w = out # recv_script w1 \<and> errno w1 = recv_errno out (errno w)
          \<and> recv_progress out \<and> \<not> recv_transient out \<and> out \<noteq> RecvData []"
    by (auto simp: recv_progress_def recv_transient_def recv_errno_def)
  then obtain out
    where out: "recv_script w = out # recv_script w1" "errno w1 = recv_errno out (errno w)"
      "recv_progress out" "\<not> recv_transient out" "out \<noteq> RecvData []"
    by blast
  from progress.IH obtain used
    where used: "recv_script w1 = used @ recv_script w'"
      "errno w' = fold recv_errno used (errno w1)"
      "\<forall>out \<in> set (butlast used). recv_progress out \<or> recv_transient out"
      "length used \<le> nat (len - r1) + length (filter recv_transient used)"
      "used \<noteq> [] \<and> last used = RecvData [] \<longrightarrow> r = 1"
    by blast
  from progress(1,3) have "Suc (nat (len - r1)) \<le> nat len" by simp
  with used(4) out(4)
  have "length (out # used) \<le> nat len + length (filter recv_transient (out # used))"
    by simp
  with out used(1,2,3,5) show ?case
    by (intro exI [of _ "out # used"]) (auto dest: in_set_butlastD)
next
  case (retry s buf len w r1 d w1 r buf' w')
  from recv_step [OF retry(2)] retry(1,3,4)
  have "\<exists>out. recv_script w = out # recv_script w1 \<and> errno w1 = recv_errno out (errno w)
          \<and> recv_transient out \<and> out \<noteq> RecvData []"
    by (auto simp: recv_transient_def recv_errno_def)
  then obtain out
    where out: "recv_script w = out # recv_script w1" "errno w1 = recv_errno out (errno w)"
      "recv_transient out" "out \<noteq> RecvData []"
    by blast
  from retry.IH obtain used
    where used: "recv_script w1 = used @ recv_script w'"
      "errno w' = fold recv_errno used (errno w1)"
      "\<forall>out \<in> set (butlast used). recv_progress out \<or> recv_transient out"
      "length used \<le> nat len + length (filter recv_transient used)"
      "used \<noteq> [] \<and> last used = RecvData [] \<longrightarrow> r = 1"
    by blast
  from used(4) out(3)
  have "length (out # used) \<le> nat len + length (filter recv_transient (out # used))"
    by simp
  with out used(1,2,3,5) show ?case
    by (intro exI [of _ "out # used"]) (auto dest: in_set_butlastD)
qed

lemma do_complete_recv_bytes:
  assumes "do_complete_recv s buf len w = Some (r, buf', w')" and "0 \<le> len"
  shows "\<exists>new. buf' = buf @ new \<and> rcvd w' = rcvd w @ new \<and> int (length new) \<le> len
           \<and> (r = 0) = (int (length new) = len) \<and> (r = 0 \<or> r = 1 \<or> r = -1)"
  using assms
proof (induction rule: do_complete_recv_induct)
  case (finished s buf len w)
  then show ?case by simp
next
  case (abort s buf len w r1 d w1)
  from recv_step [OF abort(2)] abort(3) have "rcvd w1 = rcvd w"
    by auto
  with abort(1) show ?case by (intro exI [of _ "[]"]) simp
next
  case (closed s buf len w d w1)
  from recv_step [OF closed(2)] have "rcvd w1 = rcvd w"
    by auto
  with closed(1) show ?case by (intro exI [of _ "[]"]) simp
next
  case (progress s buf len w r1 d w1 r buf' w')
  from recv_step [OF progress(2)] progress(1,3)
  have d: "rcvd w1 = rcvd w @ d" "r1 = int (length d)" "r1 \<le> len"
    by auto
  then have "0 \<le> len - r1" by simp
  from progress.IH [OF this] obtain new
    where "buf' = (buf @ d) @ new" "rcvd w' = rcvd w1 @ new" "int (length new) \<le> len - r1"
      "(r = 0) = (int (length new) = len - r1)" "r = 0 \<or> r = 1 \<or> r = -1"
    by blast
  with d show ?case by (intro exI [of _ "d @ new"]) auto
next
  case (retry s buf len w r1 d w1 r buf' w')
  from recv_step [OF retry(2)] retry(3) have "rcvd w1 = rcvd w"
    by auto
  with retry.IH [OF retry.prems] show ?case by simp
qed

text \<open>
  Each loop does what the specification asks of it: its result, the bytes it has moved,
  the calls it has made and the outcomes it has left are those of \<open>complete_write_spec\<close>
  and \<open>complete_read_spec\<close>, and it does not return exactly where they have no value.
\<close>

lemma do_complete_send_refines:
  "len = int m \<Longrightarrow> send_script w = outs \<Longrightarrow>
   write_seen (do_complete_send s data len w)
     = map_option (\<lambda>(r, moved, rounds, rest).
         (r, sent w @ take moved data, trace w @ map (\<lambda>a. EvSend s (int a)) rounds, rest))
         (complete_write_spec outs m)"
proof (induction outs m arbitrary: w data len rule: complete_write_spec.induct)
  case (1 outs)
  then show ?case by (simp add: do_complete_send.simps write_seen_def)
next
  case (2 m)
  then show ?case by (simp add: do_complete_send.simps send_def write_seen_def)
next
  case (3 n outs m)
  let ?r = "min (int n) len"
  let ?w1 = "(log (EvSend s len) w)\<lparr>send_script := outs, sent := sent w @ take (nat ?r) data\<rparr>"
  from 3 have snd: "send s data len w = Some (?r, ?w1)"
    by (simp add: send_def Let_def)
  have script: "send_script ?w1 = outs" by (simp add: log_def)
  from "3.prems"(1) have lenpos: "0 < len" by simp
  show ?case
  proof (cases "n = 0")
    case True
    with snd lenpos
    have step: "do_complete_send s data len w = do_complete_send s data len ?w1"
      by (simp add: do_complete_send.simps [of s data len w])
    from "3.IH"(1) [OF True "3.prems"(1) script, where data = data] True step "3.prems"(1)
    show ?thesis
      by (cases "complete_write_spec outs (Suc m)")
         (auto simp: write_round_def write_seen_def log_def)
  next
    case False
    with lenpos have pos: "0 < ?r" by simp
    with snd lenpos
    have step: "do_complete_send s data len w
        = do_complete_send s (drop (nat ?r) data) (len - ?r) ?w1"
      by (auto simp add: do_complete_send.simps [of s data len w] min_def)
    from "3.prems"(1) have len': "len - ?r = int (Suc m - n)" by auto
    from "3.prems"(1) have r: "nat ?r = min n (Suc m)" by auto
    from "3.IH"(2) [OF False len' script, where data = "drop (nat ?r) data"] False step "3.prems"(1) r
    show ?thesis
      by (cases "complete_write_spec outs (Suc m - n)")
         (auto simp: write_round_def write_seen_def log_def take_add)
  qed
next
  case (4 x outs m)
  let ?w1 = "(log (EvSend s len) w)\<lparr>send_script := outs, errno := x\<rparr>"
  from 4 have snd: "send s data len w = Some (-1, ?w1)"
    by (simp add: send_def)
  have script: "send_script ?w1 = outs" by (simp add: log_def)
  from "4.prems"(1) have lenpos: "0 < len" by simp
  show ?case
  proof (cases "x = EINTR \<or> x = EAGAIN")
    case True
    with snd lenpos
    have step: "do_complete_send s data len w = do_complete_send s data len ?w1"
      by (auto simp add: do_complete_send.simps [of s data len w])
    from "4.IH" [OF True "4.prems"(1) script, where data = data] True step "4.prems"(1)
    show ?thesis
      by (cases "complete_write_spec outs (Suc m)")
         (auto simp: write_round_def write_seen_def log_def)
  next
    case False
    with snd lenpos have "do_complete_send s data len w = Some (-1, ?w1)"
      by (simp add: do_complete_send.simps [of s data len w])
    with False "4.prems"(1) show ?thesis
      by (simp add: write_seen_def log_def)
  qed
qed

lemma do_complete_recv_refines:
  "len = int m \<Longrightarrow> recv_script w = outs \<Longrightarrow>
   read_seen (do_complete_recv s buf len w)
     = map_option (\<lambda>(r, moved, rounds, rest).
         (r, buf @ moved, rcvd w @ moved, trace w @ map (\<lambda>a. EvRecv s (int a)) rounds, rest))
         (complete_read_spec outs m)"
proof (induction outs m arbitrary: w buf len rule: complete_read_spec.induct)
  case (1 outs)
  then show ?case by (simp add: do_complete_recv.simps read_seen_def)
next
  case (2 m)
  then show ?case by (simp add: do_complete_recv.simps recv_def read_seen_def)
next
  case (3 bs outs m)
  let ?d = "take (nat len) bs"
  let ?w1 = "(log (EvRecv s len) w)\<lparr>recv_script := outs, rcvd := rcvd w @ ?d\<rparr>"
  from 3 have rcv: "recv s len w = Some (int (length ?d), ?d, ?w1)"
    by (simp add: recv_def Let_def)
  have script: "recv_script ?w1 = outs" by (simp add: log_def)
  from "3.prems"(1) have lenpos: "0 < len" by simp
  show ?case
  proof (cases "bs = []")
    case True
    with rcv lenpos have "do_complete_recv s buf len w = Some (1, buf, ?w1)"
      by (simp add: do_complete_recv.simps [of s buf len w])
    with True "3.prems"(1) show ?thesis
      by (simp add: read_seen_def log_def)
  next
    case False
    with lenpos have pos: "0 < int (length ?d)" by simp
    with rcv lenpos
    have step: "do_complete_recv s buf len w
        = do_complete_recv s (buf @ ?d) (len - int (length ?d)) ?w1"
      by (auto simp add: do_complete_recv.simps [of s buf len w] min_def)
    from "3.prems"(1) have len': "len - int (length ?d) = int (Suc m - length bs)" by auto
    from "3.prems"(1) have "nat len = Suc m" by linarith
    then have d: "?d = take (Suc m) bs" by simp
    from "3.IH" [OF False len' script, where buf = "buf @ ?d"] False step "3.prems"(1) d
    show ?thesis
      by (cases "complete_read_spec outs (Suc m - length bs)")
         (auto simp: read_round_def read_seen_def log_def)
  qed
next
  case (4 x outs m)
  let ?w1 = "(log (EvRecv s len) w)\<lparr>recv_script := outs, errno := x\<rparr>"
  from 4 have rcv: "recv s len w = Some (-1, [], ?w1)"
    by (simp add: recv_def)
  have script: "recv_script ?w1 = outs" by (simp add: log_def)
  from "4.prems"(1) have lenpos: "0 < len" by simp
  show ?case
  proof (cases "x = EINTR \<or> x = EAGAIN")
    case True
    with rcv lenpos
    have step: "do_complete_recv s buf len w = do_complete_recv s buf len ?w1"
      by (auto simp add: do_complete_recv.simps [of s buf len w])
    from "4.IH" [OF True "4.prems"(1) script, where buf = buf] True step "4.prems"(1)
    show ?thesis
      by (cases "complete_read_spec outs (Suc m)")
         (auto simp: read_round_def read_seen_def log_def)
  next
    case False
    with rcv lenpos have "do_complete_recv s buf len w = Some (-1, buf, ?w1)"
      by (simp add: do_complete_recv.simps [of s buf len w])
    with False "4.prems"(1) show ?thesis
      by (simp add: read_seen_def log_def)
  qed
qed

section \<open>The list of proxy addresses, and the error exit\<close>

lemma try_servers_frame:
  "try_servers s servers w = Some (server, w') \<Longrightarrow>
     fl w' = fl w \<and> sent w' = sent w \<and> rcvd w' = rcvd w
       \<and> send_script w' = send_script w \<and> recv_script w' = recv_script w
       \<and> sockopts w' = sockopts w \<and> shutdown_err w' = shutdown_err w"
proof (induction servers arbitrary: w)
  case Nil
  then show ?case by simp
next
  case (Cons srv rest)
  then show ?case
    by (auto split: option.splits if_splits dest: real_connect_frame)
qed

lemma try_servers_run:
  "try_servers s servers w = Some (server, w') \<Longrightarrow>
     \<exists>used. conn_script w = used @ conn_script w'
       \<and> errno w' = fold conn_errno used (errno w)
       \<and> trace w' = trace w @ map (connect_event s) (take (length used) servers)
       \<and> length used \<le> length servers"
proof (induction servers arbitrary: w)
  case Nil
  then show ?case by simp
next
  case (Cons srv rest)
  from Cons.prems obtain r w1
    where rc: "real_connect s (Some (ai_addr srv)) (ai_addrlen srv) w = Some (r, w1)"
    by (auto split: option.splits)
  from real_connect_step [OF rc] obtain out
    where out: "conn_script w = out # conn_script w1" "errno w1 = conn_errno out (errno w)"
      "trace w1 = trace w @ [connect_event s srv]"
    by (auto simp: connect_event_def)
  show ?case
  proof (cases "r = 0")
    case True
    with Cons.prems rc have "w' = w1" by simp
    with out show ?thesis by (intro exI [of _ "[out]"]) simp
  next
    case False
    with Cons.prems rc have "try_servers s rest w1 = Some (server, w')" by simp
    from Cons.IH [OF this] obtain used
      where "conn_script w1 = used @ conn_script w'"
        "errno w' = fold conn_errno used (errno w1)"
        "trace w' = trace w1 @ map (connect_event s) (take (length used) rest)"
        "length used \<le> length rest"
      by blast
    with out show ?thesis by (intro exI [of _ "out # used"]) simp
  qed
qed

lemma goto_error_result:
  assumes "goto_error s flags w = Some (r, w')"
  shows "r = -1 \<and> errno w' = (if errno w \<noteq> 0 then errno w else ECONNREFUSED) \<and> errno w' \<noteq> 0
       \<and> fl w' = (fl w)(s := flags)
       \<and> trace w' = trace w @ [EvSetfl s flags, EvShutdown s SHUT_RDWR]
       \<and> sent w' = sent w \<and> rcvd w' = rcvd w
       \<and> send_script w' = send_script w \<and> recv_script w' = recv_script w
       \<and> conn_script w' = conn_script w"
  using assms
  by (auto simp: goto_error_def fcntl_setfl_def shutdown_def log_def Let_def ECONNREFUSED_def
      split: option.splits)

section \<open>The call as a whole: pass through or use the proxy\<close>

lemma store_flags_result:
  "store_flags s w =
     (fl w s,
      w\<lparr>trace := trace w @ [EvGetfl s, EvSetfl s (fl w s AND NOT O_NONBLOCK)],
        fl := (fl w)(s := fl w s AND NOT O_NONBLOCK)\<rparr>)"
  by (simp add: store_flags_def fcntl_getfl_def fcntl_setfl_def log_def)

lemma use_socks_cases [consumes 1, case_names exhausted send_failed recv_failed denied granted]:
  assumes run: "use_socks e servers s sa w = Some (r, w')"
  obtains
    (exhausted) w3 where
      "try_servers s servers (snd (store_flags s w)) = Some ([], w3)"
      "goto_error s (fl w s) w3 = Some (r, w')"
  | (send_failed) server w3 rs w4 where
      "try_servers s servers (snd (store_flags s w)) = Some (server, w3)" "server \<noteq> []"
      "do_complete_send s
         (request_bytes e (template\<lparr>s4_port := sin_port sa, s4_addr := sin_addr sa\<rparr>))
         sizeof_request w3 = Some (rs, w4)"
      "rs \<noteq> 0"
      "goto_error s (fl w s) w4 = Some (r, w')"
  | (recv_failed) server w3 w4 rr response w5 where
      "try_servers s servers (snd (store_flags s w)) = Some (server, w3)" "server \<noteq> []"
      "do_complete_send s
         (request_bytes e (template\<lparr>s4_port := sin_port sa, s4_addr := sin_addr sa\<rparr>))
         sizeof_request w3 = Some (0, w4)"
      "do_complete_recv s [] sizeof_response w4 = Some (rr, response, w5)"
      "rr \<noteq> 0"
      "goto_error s (fl w s) w5 = Some (r, w')"
  | (denied) server w3 w4 response w5 where
      "try_servers s servers (snd (store_flags s w)) = Some (server, w3)" "server \<noteq> []"
      "do_complete_send s
         (request_bytes e (template\<lparr>s4_port := sin_port sa, s4_addr := sin_addr sa\<rparr>))
         sizeof_request w3 = Some (0, w4)"
      "do_complete_recv s [] sizeof_response w4 = Some (0, response, w5)"
      "s4_status response \<noteq> SOCKS4_REQUEST_GRANTED"
      "goto_error s (fl w s) w5 = Some (r, w')"
  | (granted) server w3 w4 response w5 where
      "try_servers s servers (snd (store_flags s w)) = Some (server, w3)" "server \<noteq> []"
      "do_complete_send s
         (request_bytes e (template\<lparr>s4_port := sin_port sa, s4_addr := sin_addr sa\<rparr>))
         sizeof_request w3 = Some (0, w4)"
      "do_complete_recv s [] sizeof_response w4 = Some (0, response, w5)"
      "s4_status response = SOCKS4_REQUEST_GRANTED"
      "r = 0" "w' = fcntl_setfl s (fl w s) w5"
proof -
  let ?w2 = "snd (store_flags s w)"
  let ?msg = "request_bytes e (template\<lparr>s4_port := sin_port sa, s4_addr := sin_addr sa\<rparr>)"
  have "use_socks e servers s sa w =
      (case try_servers s servers ?w2 of
         None \<Rightarrow> None
       | Some (server, w3) \<Rightarrow>
           if server = [] then goto_error s (fl w s) w3 else negotiate e s sa (fl w s) w3)"
    by (simp add: use_socks_def store_flags_result)
  with run obtain server w3 where ts: "try_servers s servers ?w2 = Some (server, w3)"
    and rest: "(if server = [] then goto_error s (fl w s) w3
                else negotiate e s sa (fl w s) w3) = Some (r, w')"
    by (auto split: option.splits)
  show thesis
  proof (cases "server = []")
    case True
    with ts rest show thesis by (intro exhausted) simp_all
  next
    case ne: False
    with rest have neg: "negotiate e s sa (fl w s) w3 = Some (r, w')" by simp
    then obtain rs w4 where snd: "do_complete_send s ?msg sizeof_request w3 = Some (rs, w4)"
      by (auto simp: negotiate_def Let_def split: option.splits)
    show thesis
    proof (cases "rs = 0")
      case False
      with neg snd have "goto_error s (fl w s) w4 = Some (r, w')"
        by (simp add: negotiate_def Let_def)
      with ts ne snd False show thesis by (intro send_failed)
    next
      case True
      with neg snd obtain rr response w5
        where rcv: "do_complete_recv s [] sizeof_response w4 = Some (rr, response, w5)"
        by (auto simp: negotiate_def Let_def split: option.splits)
      from snd True have snd0: "do_complete_send s ?msg sizeof_request w3 = Some (0, w4)"
        by simp
      show thesis
      proof (cases "rr = 0")
        case False
        with neg snd0 rcv have "goto_error s (fl w s) w5 = Some (r, w')"
          by (simp add: negotiate_def Let_def)
        with ts ne snd0 rcv False show thesis by (intro recv_failed)
      next
        case rr0: True
        with rcv have rcv0: "do_complete_recv s [] sizeof_response w4 = Some (0, response, w5)"
          by simp
        show thesis
        proof (cases "s4_status response = SOCKS4_REQUEST_GRANTED")
          case False
          with neg snd0 rcv0 have "goto_error s (fl w s) w5 = Some (r, w')"
            by (simp add: negotiate_def Let_def)
          with ts ne snd0 rcv0 False show thesis by (intro denied)
        next
          case True
          with neg snd0 rcv0 have "r = 0" "w' = fcntl_setfl s (fl w s) w5"
            by (simp_all add: negotiate_def Let_def)
          with ts ne snd0 rcv0 True show thesis by (intro granted)
        qed
      qed
    qed
  qed
qed

lemma connect_decides:
  "(\<exists>evs. set evs \<subseteq> {EvGetsockopt s SO_TYPE, EvGetsockopt s SO_DOMAIN}
      \<and> connect e servers s addr len w = real_connect s addr len (w\<lparr>trace := trace w @ evs\<rparr>))
   \<or> (\<exists>sa. addr = Some sa \<and> servers \<noteq> []
      \<and> connect e servers s addr len w =
           use_socks e servers s sa
             (w\<lparr>trace := trace w @ [EvGetsockopt s SO_TYPE, EvGetsockopt s SO_DOMAIN]\<rparr>))"
proof -
  let ?T = "EvGetsockopt s SO_TYPE" and ?D = "EvGetsockopt s SO_DOMAIN"
  let ?pass = "\<lambda>evs. connect e servers s addr len w
                 = real_connect s addr len (w\<lparr>trace := trace w @ evs\<rparr>)"
  let ?early = "servers = [] \<or> s < 0 \<or> addr = None \<or> len < sizeof_sockaddr
                  \<or> sin_family (the addr) \<noteq> AF_INET
                  \<or> sin_addr (the addr) = INADDR_ANY \<or> sin_addr (the addr) = INADDR_BROADCAST
                  \<or> IN_MULTICAST (sin_addr (the addr))
                  \<or> drop_bit 24 (ntohl e (sin_addr (the addr))) = 127"
  let ?stream = "sockopts w s SO_TYPE = GsoOk SOCK_STREAM sizeof_int"
  let ?inet = "sockopts w s SO_DOMAIN = GsoOk AF_INET_domain sizeof_int"
  consider (early) ?early | (type) "\<not> ?early" "\<not> ?stream"
    | (domain) "\<not> ?early" ?stream "\<not> ?inet" | (tunnel) "\<not> ?early" ?stream ?inet
    by blast
  then show ?thesis
  proof cases
    case early
    then have "?pass []"
      by (auto simp: connect_def goto_pass_def Let_def)
    then show ?thesis by (intro disjI1 exI [of _ "[]"]) simp
  next
    case type
    then have "?pass [?T]"
      by (auto simp: connect_def goto_pass_def Let_def getsockopt_def log_def
          split: gso_outcome.splits)
    then show ?thesis by (intro disjI1 exI [of _ "[?T]"]) simp
  next
    case domain
    then have "?pass [?T, ?D]"
      by (auto simp: connect_def goto_pass_def Let_def getsockopt_def log_def
          split: gso_outcome.splits)
    then show ?thesis by (intro disjI1 exI [of _ "[?T, ?D]"]) simp
  next
    case tunnel
    then obtain sa where "addr = Some sa" by auto
    with tunnel show ?thesis
      by (intro disjI2 exI [of _ sa])
         (auto simp: connect_def Let_def getsockopt_def log_def)
  qed
qed

section \<open>What a run through the proxy leaves behind\<close>

lemma length_request_bytes: "int (length (request_bytes e m)) = sizeof_request"
  by (simp add: request_bytes_def store16_def store32_def sizeof_request_def split: endian.splits)

lemma use_socks_fl:
  assumes "use_socks e servers s sa w = Some (r, w')"
  shows "fl w' = fl w"
  using assms
proof (cases rule: use_socks_cases)
  case (exhausted w3)
  from try_servers_frame [OF exhausted(1)] goto_error_result [OF exhausted(2)]
  show ?thesis by (simp add: store_flags_result)
next
  case (send_failed server w3 rs w4)
  from try_servers_frame [OF send_failed(1)] do_complete_send_frame [OF send_failed(3)]
    goto_error_result [OF send_failed(5)]
  show ?thesis by (simp add: store_flags_result)
next
  case (recv_failed server w3 w4 rr response w5)
  from try_servers_frame [OF recv_failed(1)] do_complete_send_frame [OF recv_failed(3)]
    do_complete_recv_frame [OF recv_failed(4)] goto_error_result [OF recv_failed(6)]
  show ?thesis by (simp add: store_flags_result)
next
  case (denied server w3 w4 response w5)
  from try_servers_frame [OF denied(1)] do_complete_send_frame [OF denied(3)]
    do_complete_recv_frame [OF denied(4)] goto_error_result [OF denied(6)]
  show ?thesis by (simp add: store_flags_result)
next
  case (granted server w3 w4 response w5)
  from try_servers_frame [OF granted(1)] do_complete_send_frame [OF granted(3)]
    do_complete_recv_frame [OF granted(4)] granted(7)
  show ?thesis by (simp add: store_flags_result fcntl_setfl_def log_def)
qed

lemma use_socks_response:
  assumes "use_socks e servers s sa w = Some (r, w')"
    and "length (rcvd w') = length (rcvd w) + 8"
  shows "(r = 0) = (s4_status (drop (length (rcvd w)) (rcvd w')) = 0x5A)
       \<and> (r = 0 \<or> r = -1 \<and> errno w' \<noteq> 0 \<and> last (trace w') = EvShutdown s SHUT_RDWR)"
  using assms
proof (cases rule: use_socks_cases)
  case (exhausted w3)
  from try_servers_frame [OF exhausted(1)] goto_error_result [OF exhausted(2)] assms(2)
  show ?thesis by (simp add: store_flags_result)
next
  case (send_failed server w3 rs w4)
  from try_servers_frame [OF send_failed(1)] do_complete_send_frame [OF send_failed(3)]
    goto_error_result [OF send_failed(5)] assms(2)
  show ?thesis by (simp add: store_flags_result)
next
  case (recv_failed server w3 w4 rr response w5)
  from do_complete_recv_bytes [OF recv_failed(4)] recv_failed(5) obtain new
    where "rcvd w5 = rcvd w4 @ new" "int (length new) \<noteq> sizeof_response"
    by (auto simp: sizeof_response_def)
  with try_servers_frame [OF recv_failed(1)] do_complete_send_frame [OF recv_failed(3)]
    goto_error_result [OF recv_failed(6)] assms(2)
  show ?thesis by (simp add: store_flags_result sizeof_response_def)
next
  case (denied server w3 w4 response w5)
  from do_complete_recv_bytes [OF denied(4)]
  have new: "rcvd w5 = rcvd w4 @ response" "length response = 8"
    by (auto simp: sizeof_response_def)
  with try_servers_frame [OF denied(1)] do_complete_send_frame [OF denied(3)]
    goto_error_result [OF denied(6)] denied(5)
  show ?thesis by (simp add: store_flags_result SOCKS4_REQUEST_GRANTED_def)
next
  case (granted server w3 w4 response w5)
  from do_complete_recv_bytes [OF granted(4)]
  have new: "rcvd w5 = rcvd w4 @ response" "length response = 8"
    by (auto simp: sizeof_response_def)
  with try_servers_frame [OF granted(1)] do_complete_send_frame [OF granted(3)]
    granted(5,6,7)
  show ?thesis by (simp add: store_flags_result fcntl_setfl_def log_def SOCKS4_REQUEST_GRANTED_def)
qed

lemma use_socks_sent:
  assumes "use_socks e servers s sa w = Some (r, w')"
  shows "\<exists>n. sent w' = sent w
                 @ take n (request_bytes e (template\<lparr>s4_port := sin_port sa, s4_addr := sin_addr sa\<rparr>))
           \<and> (r = 0 \<or> recv_script w' \<noteq> recv_script w \<longrightarrow> n = 9)"
  using assms
proof (cases rule: use_socks_cases)
  case (exhausted w3)
  from try_servers_frame [OF exhausted(1)] goto_error_result [OF exhausted(2)]
  show ?thesis by (intro exI [of _ 0]) (simp add: store_flags_result)
next
  case (send_failed server w3 rs w4)
  from do_complete_send_bytes [OF send_failed(3) length_request_bytes [symmetric]] obtain n
    where "sent w4 = sent w3 @ take n
       (request_bytes e (template\<lparr>s4_port := sin_port sa, s4_addr := sin_addr sa\<rparr>))"
    by blast
  with try_servers_frame [OF send_failed(1)] do_complete_send_frame [OF send_failed(3)]
    goto_error_result [OF send_failed(5)]
  show ?thesis by (intro exI [of _ n]) (simp add: store_flags_result)
next
  case (recv_failed server w3 w4 rr response w5)
  from do_complete_send_bytes [OF recv_failed(3) length_request_bytes [symmetric]]
  have "sent w4 = sent w3 @ take 9
       (request_bytes e (template\<lparr>s4_port := sin_port sa, s4_addr := sin_addr sa\<rparr>))"
    using length_request_bytes [of e "template\<lparr>s4_port := sin_port sa, s4_addr := sin_addr sa\<rparr>"]
    by (auto simp: sizeof_request_def)
  with try_servers_frame [OF recv_failed(1)] do_complete_recv_frame [OF recv_failed(4)]
    goto_error_result [OF recv_failed(6)]
  show ?thesis by (intro exI [of _ 9]) (simp add: store_flags_result)
next
  case (denied server w3 w4 response w5)
  from do_complete_send_bytes [OF denied(3) length_request_bytes [symmetric]]
  have "sent w4 = sent w3 @ take 9
       (request_bytes e (template\<lparr>s4_port := sin_port sa, s4_addr := sin_addr sa\<rparr>))"
    using length_request_bytes [of e "template\<lparr>s4_port := sin_port sa, s4_addr := sin_addr sa\<rparr>"]
    by (auto simp: sizeof_request_def)
  with try_servers_frame [OF denied(1)] do_complete_recv_frame [OF denied(4)]
    goto_error_result [OF denied(6)]
  show ?thesis by (intro exI [of _ 9]) (simp add: store_flags_result)
next
  case (granted server w3 w4 response w5)
  from do_complete_send_bytes [OF granted(3) length_request_bytes [symmetric]]
  have "sent w4 = sent w3 @ take 9
       (request_bytes e (template\<lparr>s4_port := sin_port sa, s4_addr := sin_addr sa\<rparr>))"
    using length_request_bytes [of e "template\<lparr>s4_port := sin_port sa, s4_addr := sin_addr sa\<rparr>"]
    by (auto simp: sizeof_request_def)
  with try_servers_frame [OF granted(1)] do_complete_recv_frame [OF granted(4)] granted(7)
  show ?thesis by (intro exI [of _ 9]) (simp add: store_flags_result fcntl_setfl_def log_def)
qed

section \<open>The request as the protocol writes it\<close>

lemma store16_be16: "store16 e x = be16 (ntohs e x)"
proof (cases e)
  case LittleEndian
  have "(ucast (drop_bit 8 (bswap16 x)) :: byte) = ucast x"
    by (rule bit_word_eqI) (auto simp: bswap16_def bit_simps)
  moreover have "(ucast (bswap16 x) :: byte) = ucast (drop_bit 8 x)"
    by (rule bit_word_eqI) (auto simp: bswap16_def bit_simps)
  ultimately show ?thesis
    using LittleEndian by (simp add: store16_def be16_def ntohs_def)
next
  case BigEndian
  then show ?thesis by (simp add: store16_def be16_def ntohs_def)
qed

lemma store32_be32: "store32 e x = be32 (ntohl e x)"
proof (cases e)
  case LittleEndian
  have "(ucast (drop_bit 24 (bswap32 x)) :: byte) = ucast x"
    by (rule bit_word_eqI) (auto simp: bswap32_def bit_simps)
  moreover have "(ucast (drop_bit 16 (bswap32 x)) :: byte) = ucast (drop_bit 8 x)"
    by (rule bit_word_eqI) (auto simp: bswap32_def bit_simps)
  moreover have "(ucast (drop_bit 8 (bswap32 x)) :: byte) = ucast (drop_bit 16 x)"
    by (rule bit_word_eqI) (auto simp: bswap32_def bit_simps)
  moreover have "(ucast (bswap32 x) :: byte) = ucast (drop_bit 24 x)"
    by (rule bit_word_eqI) (auto simp: bswap32_def bit_simps)
  ultimately show ?thesis
    using LittleEndian by (simp add: store32_def be32_def ntohl_def)
next
  case BigEndian
  then show ?thesis by (simp add: store32_def be32_def ntohl_def)
qed

lemma request_bytes_wire:
  "request_bytes e (template\<lparr>s4_port := sin_port sa, s4_addr := sin_addr sa\<rparr>)
     = socks4_connect_message e sa"
  by (simp add: request_bytes_def template_def socks4_connect_message_def
      store16_be16 store32_be32)

lemma length_connect_message: "length (socks4_connect_message e sa) = 9"
  by (simp add: socks4_connect_message_def be16_def be32_def)

section \<open>Premature close, and errno at the return\<close>

lemma use_socks_closed:
  assumes run: "use_socks e servers s sa w = Some (r, w')"
    and used: "recv_script w = used @ recv_script w'" "used \<noteq> []" "last used = RecvData []"
  shows "r = -1 \<and> errno w' \<noteq> 0 \<and> last (trace w') = EvShutdown s SHUT_RDWR
       \<and> length (rcvd w') < length (rcvd w) + 8"
  using run
proof (cases rule: use_socks_cases)
  case (exhausted w3)
  from try_servers_frame [OF exhausted(1)] goto_error_result [OF exhausted(2)] used
  show ?thesis by (simp add: store_flags_result)
next
  case (send_failed server w3 rs w4)
  from try_servers_frame [OF send_failed(1)] do_complete_send_frame [OF send_failed(3)]
    goto_error_result [OF send_failed(5)] used
  show ?thesis by (simp add: store_flags_result)
next
  case (recv_failed server w3 w4 rr response w5)
  from do_complete_recv_bytes [OF recv_failed(4)] recv_failed(5) obtain new
    where "rcvd w5 = rcvd w4 @ new" "length new < 8"
    by (auto simp: sizeof_response_def)
  with try_servers_frame [OF recv_failed(1)] do_complete_send_frame [OF recv_failed(3)]
    goto_error_result [OF recv_failed(6)]
  show ?thesis by (simp add: store_flags_result)
next
  case (denied server w3 w4 response w5)
  from do_complete_recv_run [OF denied(4)] obtain used'
    where u: "recv_script w4 = used' @ recv_script w5"
      "used' \<noteq> [] \<and> last used' = RecvData [] \<longrightarrow> (0::int) = 1"
    by blast
  from try_servers_frame [OF denied(1)] do_complete_send_frame [OF denied(3)]
    goto_error_result [OF denied(6)] u(1) used(1)
  have "used' = used" by (simp add: store_flags_result)
  with u(2) used show ?thesis by simp
next
  case (granted server w3 w4 response w5)
  from do_complete_recv_run [OF granted(4)] obtain used'
    where u: "recv_script w4 = used' @ recv_script w5"
      "used' \<noteq> [] \<and> last used' = RecvData [] \<longrightarrow> (0::int) = 1"
    by blast
  from try_servers_frame [OF granted(1)] do_complete_send_frame [OF granted(3)]
    granted(7) u(1) used(1)
  have "used' = used" by (simp add: store_flags_result fcntl_setfl_def log_def)
  with u(2) used show ?thesis by simp
qed

lemma use_socks_errno:
  assumes run: "use_socks e servers s sa w = Some (r, w')"
  shows "\<exists>uc us ur. conn_script w = uc @ conn_script w'
           \<and> send_script w = us @ send_script w'
           \<and> recv_script w = ur @ recv_script w'
           \<and> errno w' =
               (let e1 = fold recv_errno ur (fold send_errno us (fold conn_errno uc (errno w)))
                in if r = 0 then e1 else if e1 \<noteq> 0 then e1 else ECONNREFUSED)
           \<and> (r = 0 \<or> r = -1)"
  using run
proof (cases rule: use_socks_cases)
  case (exhausted w3)
  from try_servers_run [OF exhausted(1)] obtain uc
    where "conn_script (snd (store_flags s w)) = uc @ conn_script w3"
      "errno w3 = fold conn_errno uc (errno (snd (store_flags s w)))"
    by blast
  with try_servers_frame [OF exhausted(1)] goto_error_result [OF exhausted(2)]
  show ?thesis
    by (intro exI [of _ uc] exI [of _ "[]"]) (simp add: store_flags_result)
next
  case (send_failed server w3 rs w4)
  from try_servers_run [OF send_failed(1)] obtain uc
    where "conn_script (snd (store_flags s w)) = uc @ conn_script w3"
      "errno w3 = fold conn_errno uc (errno (snd (store_flags s w)))"
    by blast
  moreover from do_complete_send_run [OF send_failed(3)] obtain us
    where "send_script w3 = us @ send_script w4" "errno w4 = fold send_errno us (errno w3)"
    by blast
  ultimately show ?thesis
    using try_servers_frame [OF send_failed(1)] do_complete_send_frame [OF send_failed(3)]
      goto_error_result [OF send_failed(5)]
    by (intro exI [of _ uc] exI [of _ us] exI [of _ "[]"]) (simp add: store_flags_result)
next
  case (recv_failed server w3 w4 rr response w5)
  from try_servers_run [OF recv_failed(1)] obtain uc
    where "conn_script (snd (store_flags s w)) = uc @ conn_script w3"
      "errno w3 = fold conn_errno uc (errno (snd (store_flags s w)))"
    by blast
  moreover from do_complete_send_run [OF recv_failed(3)] obtain us
    where "send_script w3 = us @ send_script w4" "errno w4 = fold send_errno us (errno w3)"
    by blast
  moreover from do_complete_recv_run [OF recv_failed(4)] obtain ur
    where "recv_script w4 = ur @ recv_script w5" "errno w5 = fold recv_errno ur (errno w4)"
    by blast
  ultimately show ?thesis
    using try_servers_frame [OF recv_failed(1)] do_complete_send_frame [OF recv_failed(3)]
      do_complete_recv_frame [OF recv_failed(4)] goto_error_result [OF recv_failed(6)]
    by (intro exI [of _ uc] exI [of _ us] exI [of _ ur]) (simp add: store_flags_result)
next
  case (denied server w3 w4 response w5)
  from try_servers_run [OF denied(1)] obtain uc
    where "conn_script (snd (store_flags s w)) = uc @ conn_script w3"
      "errno w3 = fold conn_errno uc (errno (snd (store_flags s w)))"
    by blast
  moreover from do_complete_send_run [OF denied(3)] obtain us
    where "send_script w3 = us @ send_script w4" "errno w4 = fold send_errno us (errno w3)"
    by blast
  moreover from do_complete_recv_run [OF denied(4)] obtain ur
    where "recv_script w4 = ur @ recv_script w5" "errno w5 = fold recv_errno ur (errno w4)"
    by blast
  ultimately show ?thesis
    using try_servers_frame [OF denied(1)] do_complete_send_frame [OF denied(3)]
      do_complete_recv_frame [OF denied(4)] goto_error_result [OF denied(6)]
    by (intro exI [of _ uc] exI [of _ us] exI [of _ ur]) (simp add: store_flags_result)
next
  case (granted server w3 w4 response w5)
  from try_servers_run [OF granted(1)] obtain uc
    where "conn_script (snd (store_flags s w)) = uc @ conn_script w3"
      "errno w3 = fold conn_errno uc (errno (snd (store_flags s w)))"
    by blast
  moreover from do_complete_send_run [OF granted(3)] obtain us
    where "send_script w3 = us @ send_script w4" "errno w4 = fold send_errno us (errno w3)"
    by blast
  moreover from do_complete_recv_run [OF granted(4)] obtain ur
    where "recv_script w4 = ur @ recv_script w5" "errno w5 = fold recv_errno ur (errno w4)"
    by blast
  ultimately show ?thesis
    using try_servers_frame [OF granted(1)] do_complete_send_frame [OF granted(3)]
      do_complete_recv_frame [OF granted(4)] granted(6,7)
    by (intro exI [of _ uc] exI [of _ us] exI [of _ ur])
       (simp add: store_flags_result fcntl_setfl_def log_def)
qed

lemma connect_cases [consumes 1, case_names pass tunnel]:
  assumes "connect e servers s addr len w = Some (r, w')"
  obtains
    (pass) evs where
      "real_connect s addr len (w\<lparr>trace := trace w @ evs\<rparr>) = Some (r, w')"
  | (tunnel) sa where "addr = Some sa" "servers \<noteq> []"
      "use_socks e servers s sa
         (w\<lparr>trace := trace w @ [EvGetsockopt s SO_TYPE, EvGetsockopt s SO_DOMAIN]\<rparr>)
       = Some (r, w')"
  using connect_decides [of s e servers addr len w] assms by auto

text \<open>
  A run whose last answer from \<^verbatim>\<open>recv\<close> was a zero-length read (the peer has closed; the
  loop only asks while bytes are missing): the read loop returns 1, and the call returns -1
  after fewer than 8 response bytes, with \<^verbatim>\<open>shutdown(s, SHUT_RDWR)\<close> as its last system call
  and an \<^verbatim>\<open>errno\<close> that is not 0. Which value it is, \<open>error_exit_errno\<close> says.
\<close>

lemma premature_close_shuts_down:
  assumes "used \<noteq> []" and "last used = RecvData []"
  shows "(do_complete_recv s buf n v = Some (rr, buf', v') \<and> recv_script v = used @ recv_script v'
            \<longrightarrow> rr = 1)
       \<and> (connect e servers s addr len w = Some (r, w') \<and> recv_script w = used @ recv_script w'
            \<longrightarrow> r = -1 \<and> errno w' \<noteq> 0 \<and> last (trace w') = EvShutdown s SHUT_RDWR
              \<and> length (rcvd w') < length (rcvd w) + 8)"
proof -
  have loop: "rr = 1"
    if run: "do_complete_recv s buf n v = Some (rr, buf', v')"
      and u: "recv_script v = used @ recv_script v'"
  proof -
    from do_complete_recv_run [OF run] obtain used'
      where "recv_script v = used' @ recv_script v'"
        "used' \<noteq> [] \<and> last used' = RecvData [] \<longrightarrow> rr = 1"
      by blast
    with u assms show ?thesis by simp
  qed
  have call: "r = -1 \<and> errno w' \<noteq> 0 \<and> last (trace w') = EvShutdown s SHUT_RDWR
      \<and> length (rcvd w') < length (rcvd w) + 8"
    if run: "connect e servers s addr len w = Some (r, w')"
      and u: "recv_script w = used @ recv_script w'"
    using run
  proof (cases rule: connect_cases)
    case (pass evs)
    from real_connect_frame [OF pass] u assms(1) show ?thesis by simp
  next
    case (tunnel sa)
    let ?w2 = "w\<lparr>trace := trace w @ [EvGetsockopt s SO_TYPE, EvGetsockopt s SO_DOMAIN]\<rparr>"
    from u have u2: "recv_script ?w2 = used @ recv_script w'" by simp
    from use_socks_closed [OF tunnel(3) u2 assms] show ?thesis by simp
  qed
  from loop call show ?thesis by blast
qed

section \<open>The candidates, from the outcomes of their connects\<close>

lemma try_servers_script:
  "length servers \<le> length (conn_script w) \<Longrightarrow>
     \<exists>w1. try_servers s servers w = Some (drop (refusals servers w) servers, w1)
       \<and> trace w1 = trace w @ map (connect_event s) (take (Suc (refusals servers w)) servers)"
proof (induction servers arbitrary: w)
  case Nil
  show ?case by (simp add: refusals_def)
next
  case (Cons srv rest)
  from Cons.prems obtain out outs where script: "conn_script w = out # outs"
    by (cases "conn_script w") auto
  show ?case
  proof (cases out)
    case ConnOk
    with script show ?thesis
      by (simp add: real_connect_def log_def refusals_def refused_def connect_event_def)
  next
    case (ConnErr x)
    let ?w1 = "(log (EvConnect s (Some (ai_addr srv)) (ai_addrlen srv)) w)
                 \<lparr>conn_script := outs, errno := x\<rparr>"
    from script ConnErr
    have rc: "real_connect s (Some (ai_addr srv)) (ai_addrlen srv) w = Some (-1, ?w1)"
      by (simp add: real_connect_def)
    from Cons.prems script have "length rest \<le> length (conn_script ?w1)"
      by (simp add: log_def)
    from Cons.IH [OF this] obtain w2
      where "try_servers s rest ?w1 = Some (drop (refusals rest ?w1) rest, w2)"
        "trace w2 = trace ?w1 @ map (connect_event s) (take (Suc (refusals rest ?w1)) rest)"
      by blast
    moreover from script ConnErr have "refusals (srv # rest) w = Suc (refusals rest ?w1)"
      by (simp add: refusals_def refused_def log_def)
    ultimately show ?thesis
      using rc by (simp add: log_def connect_event_def)
  qed
qed

lemma length_takeWhile_all:
  "(length (takeWhile P xs) = length xs) = (\<forall>x \<in> set xs. P x)"
  by (induction xs) auto

lemma refusals_all:
  assumes "length servers \<le> length (conn_script w)"
  shows "(drop (refusals servers w) servers = [])
       = (\<forall>out \<in> set (take (length servers) (conn_script w)). refused out)"
proof -
  let ?outs = "take (length servers) (conn_script w)"
  from assms have len: "length ?outs = length servers" by simp
  have "(drop (refusals servers w) servers = []) = (length servers \<le> length (takeWhile refused ?outs))"
    by (simp add: refusals_def)
  also have "\<dots> = (length (takeWhile refused ?outs) = length ?outs)"
    using length_takeWhile_le [of refused ?outs] len by auto
  also have "\<dots> = (\<forall>out \<in> set ?outs. refused out)"
    by (rule length_takeWhile_all)
  finally show ?thesis .
qed

section \<open>The filter and the error exit, in general\<close>

text \<open>
  The filter as the code applies it: each of its conditions sends the call to the real
  \<^verbatim>\<open>connect\<close>, started in the world of the call's entry with only the option queries added
  to the trace.
\<close>

lemma filter_passes_through:
  assumes "servers = [] \<or> s < 0 \<or> addr = None \<or> len < sizeof_sockaddr
     \<or> (\<exists>sa. addr = Some sa
           \<and> (sin_family sa \<noteq> AF_INET \<or> sin_addr sa = INADDR_ANY
                \<or> sin_addr sa = INADDR_BROADCAST \<or> IN_MULTICAST (sin_addr sa)
                \<or> first_octet e sa = 127))
     \<or> sockopts w s SO_TYPE \<noteq> GsoOk SOCK_STREAM sizeof_int
     \<or> sockopts w s SO_DOMAIN \<noteq> GsoOk AF_INET_domain sizeof_int"
  shows "\<exists>evs. set evs \<subseteq> {EvGetsockopt s SO_TYPE, EvGetsockopt s SO_DOMAIN}
           \<and> connect e servers s addr len w
               = real_connect s addr len (w\<lparr>trace := trace w @ evs\<rparr>)"
proof -
  let ?T = "EvGetsockopt s SO_TYPE" and ?D = "EvGetsockopt s SO_DOMAIN"
  let ?pass = "\<lambda>evs. connect e servers s addr len w
                 = real_connect s addr len (w\<lparr>trace := trace w @ evs\<rparr>)"
  let ?early = "servers = [] \<or> s < 0 \<or> addr = None \<or> len < sizeof_sockaddr
                  \<or> sin_family (the addr) \<noteq> AF_INET
                  \<or> sin_addr (the addr) = INADDR_ANY \<or> sin_addr (the addr) = INADDR_BROADCAST
                  \<or> IN_MULTICAST (sin_addr (the addr))
                  \<or> drop_bit 24 (ntohl e (sin_addr (the addr))) = 127"
  let ?stream = "sockopts w s SO_TYPE = GsoOk SOCK_STREAM sizeof_int"
  let ?inet = "sockopts w s SO_DOMAIN = GsoOk AF_INET_domain sizeof_int"
  from assms have "?early \<or> \<not> ?stream \<or> \<not> ?inet"
    by (auto simp: first_octet_def)
  then consider (early) ?early | (type) "\<not> ?early" "\<not> ?stream"
    | (domain) "\<not> ?early" ?stream "\<not> ?inet"
    by blast
  then show ?thesis
  proof cases
    case early
    then have "?pass []"
      by (auto simp: connect_def goto_pass_def Let_def)
    then show ?thesis by (intro exI [of _ "[]"]) simp
  next
    case type
    then have "?pass [?T]"
      by (auto simp: connect_def goto_pass_def Let_def getsockopt_def log_def
          split: gso_outcome.splits)
    then show ?thesis by (intro exI [of _ "[?T]"]) simp
  next
    case domain
    then have "?pass [?T, ?D]"
      by (auto simp: connect_def goto_pass_def Let_def getsockopt_def log_def
          split: gso_outcome.splits)
    then show ?thesis by (intro exI [of _ "[?T, ?D]"]) simp
  qed
qed

text \<open>
  The error code of a call that leaves through the label \<^verbatim>\<open>error:\<close> (its last system call
  is the shutdown): \<^verbatim>\<open>errno\<close> as the calls made so far have left it, starting from its value
  at entry, and \<^verbatim>\<open>ECONNREFUSED\<close> in its place if that is 0.
\<close>

lemma error_exit_errno:
  assumes "connect e servers s addr len w = Some (r, w')"
    and "last (trace w') = EvShutdown s SHUT_RDWR"
  shows "r = -1
       \<and> (\<exists>uc us ur. conn_script w = uc @ conn_script w'
             \<and> send_script w = us @ send_script w'
             \<and> recv_script w = ur @ recv_script w'
             \<and> errno w' =
                 (let e1 = fold recv_errno ur (fold send_errno us (fold conn_errno uc (errno w)))
                  in if e1 \<noteq> 0 then e1 else ECONNREFUSED))"
  using assms(1)
proof (cases rule: connect_cases)
  case (pass evs)
  from real_connect_step [OF pass] assms(2) show ?thesis by auto
next
  case (tunnel sa)
  from tunnel(3) have "r = -1"
  proof (cases rule: use_socks_cases)
    case (granted server w3 w4 response w5)
    with assms(2) show ?thesis by (simp add: fcntl_setfl_def log_def)
  qed (auto dest: goto_error_result)
  with use_socks_errno [OF tunnel(3)] show ?thesis by (auto simp: Let_def)
qed

section \<open>The call returns when the outcomes suffice\<close>

lemma do_complete_send_returns:
  "send_script w = outs \<Longrightarrow>
   (\<exists>out \<in> set outs. send_ends out) \<or> nat len \<le> length (filter send_progress outs) \<Longrightarrow>
   \<exists>r w'. do_complete_send s data len w = Some (r, w')"
proof (induction outs arbitrary: w data len)
  case Nil
  then show ?case by (simp add: do_complete_send.simps)
next
  case (Cons out rest)
  show ?case
  proof (cases "0 < len")
    case False
    then show ?thesis by (simp add: do_complete_send.simps)
  next
    case True
    show ?thesis
    proof (cases out)
      case (Sent n)
      let ?r = "min (int n) len"
      let ?w1 = "(log (EvSend s len) w)\<lparr>send_script := rest, sent := sent w @ take (nat ?r) data\<rparr>"
      from Cons.prems(1) Sent have snd: "send s data len w = Some (?r, ?w1)"
        by (simp add: send_def Let_def)
      have script: "send_script ?w1 = rest" by (simp add: log_def)
      show ?thesis
      proof (cases "n = 0")
        case True
        with Sent have "\<not> send_progress out" "\<not> send_ends out"
          by (simp_all add: send_progress_def send_ends_def)
        with Cons.prems(2)
        have "(\<exists>out \<in> set rest. send_ends out) \<or> nat len \<le> length (filter send_progress rest)"
          by auto
        from Cons.IH [OF script this, of data] snd True \<open>0 < len\<close> show ?thesis
          by (simp add: do_complete_send.simps [of s data len w])
      next
        case False
        with \<open>0 < len\<close> have pos: "0 < ?r" by simp
        from Sent False have prog: "send_progress out" "\<not> send_ends out"
          by (simp_all add: send_progress_def send_ends_def)
        with Cons.prems(2)
        have "(\<exists>out \<in> set rest. send_ends out)
            \<or> nat len \<le> Suc (length (filter send_progress rest))"
          by auto
        moreover from pos \<open>0 < len\<close> have "Suc (nat (len - ?r)) \<le> nat len"
          by linarith
        ultimately have "(\<exists>out \<in> set rest. send_ends out)
            \<or> nat (len - ?r) \<le> length (filter send_progress rest)"
          by linarith
        from Cons.IH [OF script this, of "drop (nat ?r) data"] snd pos \<open>0 < len\<close> show ?thesis
          by (simp add: do_complete_send.simps [of s data len w] log_def)
      qed
    next
      case (SendErr x)
      let ?w1 = "(log (EvSend s len) w)\<lparr>send_script := rest, errno := x\<rparr>"
      from Cons.prems(1) SendErr have snd: "send s data len w = Some (-1, ?w1)"
        by (simp add: send_def)
      have script: "send_script ?w1 = rest" by (simp add: log_def)
      show ?thesis
      proof (cases "x \<noteq> EINTR \<and> x \<noteq> EAGAIN")
        case True
        with snd \<open>0 < len\<close> show ?thesis
          by (simp add: do_complete_send.simps [of s data len w] log_def)
      next
        case False
        with SendErr have "\<not> send_progress out" "\<not> send_ends out"
          by (auto simp: send_progress_def send_ends_def)
        with Cons.prems(2)
        have "(\<exists>out \<in> set rest. send_ends out) \<or> nat len \<le> length (filter send_progress rest)"
          by auto
        from Cons.IH [OF script this, of data] snd False \<open>0 < len\<close> show ?thesis
          by (auto simp: do_complete_send.simps [of s data len w] log_def)
      qed
    qed
  qed
qed

lemma do_complete_recv_returns:
  "recv_script w = outs \<Longrightarrow>
   (\<exists>out \<in> set outs. recv_ends out) \<or> nat len \<le> length (filter recv_progress outs) \<Longrightarrow>
   \<exists>r buf' w'. do_complete_recv s buf len w = Some (r, buf', w')"
proof (induction outs arbitrary: w buf len)
  case Nil
  then show ?case by (simp add: do_complete_recv.simps)
next
  case (Cons out rest)
  show ?case
  proof (cases "0 < len")
    case False
    then show ?thesis by (simp add: do_complete_recv.simps)
  next
    case True
    show ?thesis
    proof (cases out)
      case (RecvData bs)
      let ?d = "take (nat len) bs"
      let ?w1 = "(log (EvRecv s len) w)\<lparr>recv_script := rest, rcvd := rcvd w @ ?d\<rparr>"
      from Cons.prems(1) RecvData have rcv: "recv s len w = Some (int (length ?d), ?d, ?w1)"
        by (simp add: recv_def Let_def)
      have script: "recv_script ?w1 = rest" by (simp add: log_def)
      show ?thesis
      proof (cases "bs = []")
        case True
        with rcv \<open>0 < len\<close> show ?thesis
          by (simp add: do_complete_recv.simps [of s buf len w])
      next
        case False
        with \<open>0 < len\<close> have pos: "0 < int (length ?d)" by simp
        from RecvData False have prog: "recv_progress out" "\<not> recv_ends out"
          by (simp_all add: recv_progress_def recv_ends_def)
        with Cons.prems(2)
        have "(\<exists>out \<in> set rest. recv_ends out)
            \<or> nat len \<le> Suc (length (filter recv_progress rest))"
          by auto
        moreover from pos \<open>0 < len\<close> have "Suc (nat (len - int (length ?d))) \<le> nat len"
          by linarith
        ultimately have "(\<exists>out \<in> set rest. recv_ends out)
            \<or> nat (len - int (length ?d)) \<le> length (filter recv_progress rest)"
          by linarith
        from Cons.IH [OF script this, of "buf @ ?d"] rcv pos \<open>0 < len\<close> show ?thesis
          by (simp add: do_complete_recv.simps [of s buf len w] log_def)
      qed
    next
      case (RecvErr x)
      let ?w1 = "(log (EvRecv s len) w)\<lparr>recv_script := rest, errno := x\<rparr>"
      from Cons.prems(1) RecvErr have rcv: "recv s len w = Some (-1, [], ?w1)"
        by (simp add: recv_def)
      have script: "recv_script ?w1 = rest" by (simp add: log_def)
      show ?thesis
      proof (cases "x \<noteq> EINTR \<and> x \<noteq> EAGAIN")
        case True
        with rcv \<open>0 < len\<close> show ?thesis
          by (simp add: do_complete_recv.simps [of s buf len w] log_def)
      next
        case False
        with RecvErr have "\<not> recv_progress out" "\<not> recv_ends out"
          by (auto simp: recv_progress_def recv_ends_def)
        with Cons.prems(2)
        have "(\<exists>out \<in> set rest. recv_ends out) \<or> nat len \<le> length (filter recv_progress rest)"
          by auto
        from Cons.IH [OF script this, of buf] rcv False \<open>0 < len\<close> show ?thesis
          by (auto simp: do_complete_recv.simps [of s buf len w] log_def)
      qed
    qed
  qed
qed

lemma try_servers_returns:
  "ConnOk \<in> set (conn_script w) \<or> length servers \<le> length (conn_script w) \<Longrightarrow>
   \<exists>server w'. try_servers s servers w = Some (server, w')"
proof (induction servers arbitrary: w)
  case Nil
  show ?case by simp
next
  case (Cons srv rest)
  from Cons.prems obtain out outs where script: "conn_script w = out # outs"
    by (cases "conn_script w") auto
  show ?case
  proof (cases out)
    case ConnOk
    with script show ?thesis by (simp add: real_connect_def)
  next
    case (ConnErr x)
    let ?w1 = "(log (EvConnect s (Some (ai_addr srv)) (ai_addrlen srv)) w)
                 \<lparr>conn_script := outs, errno := x\<rparr>"
    from script ConnErr
    have rc: "real_connect s (Some (ai_addr srv)) (ai_addrlen srv) w = Some (-1, ?w1)"
      by (simp add: real_connect_def)
    from Cons.prems script ConnErr
    have "ConnOk \<in> set (conn_script ?w1) \<or> length rest \<le> length (conn_script ?w1)"
      by (auto simp: log_def)
    from Cons.IH [OF this] rc show ?thesis by simp
  qed
qed

text \<open>
  The call returns whenever the outcomes scripted suffice: one for the real \<^verbatim>\<open>connect\<close>,
  and for the way through the proxy an accepting one or one for each address, then for
  each loop an outcome that ends it or as many transfers as it has bytes to move.
\<close>

lemma connect_returns:
  assumes conn: "conn_script w \<noteq> []"
      "ConnOk \<in> set (conn_script w) \<or> length servers \<le> length (conn_script w)"
    and snd: "(\<exists>out \<in> set (send_script w). send_ends out)
      \<or> 9 \<le> length (filter send_progress (send_script w))"
    and rcv: "(\<exists>out \<in> set (recv_script w). recv_ends out)
      \<or> 8 \<le> length (filter recv_progress (recv_script w))"
  shows "\<exists>r w'. connect e servers s addr len w = Some (r, w')"
proof -
  from connect_decides [of s e servers addr len w] show ?thesis
  proof (elim disjE exE conjE)
    fix evs
    assume "connect e servers s addr len w = real_connect s addr len (w\<lparr>trace := trace w @ evs\<rparr>)"
    with conn(1) show ?thesis
      by (auto simp: real_connect_def Let_def split: list.splits conn_outcome.splits)
  next
    fix sa :: sockaddr_in
    let ?w2 = "w\<lparr>trace := trace w @ [EvGetsockopt s SO_TYPE, EvGetsockopt s SO_DOMAIN]\<rparr>"
    let ?p = "snd (store_flags s ?w2)"
    let ?msg = "request_bytes e (template\<lparr>s4_port := sin_port sa, s4_addr := sin_addr sa\<rparr>)"
    assume call: "connect e servers s addr len w = use_socks e servers s sa ?w2"
    have us: "use_socks e servers s sa ?w2 =
      (case try_servers s servers ?p of
         None \<Rightarrow> None
       | Some (server, w3) \<Rightarrow>
           if server = [] then goto_error s (fl w s) w3 else negotiate e s sa (fl w s) w3)"
      by (simp add: use_socks_def store_flags_result)
    have err: "\<exists>r w'. goto_error s flags v = Some (r, w')" for flags v
      by (simp add: goto_error_def Let_def)
    from conn(2)
    have "ConnOk \<in> set (conn_script ?p) \<or> length servers \<le> length (conn_script ?p)"
      by (simp add: store_flags_result)
    from try_servers_returns [OF this] obtain server w3
      where ts: "try_servers s servers ?p = Some (server, w3)"
      by blast
    from try_servers_frame [OF ts]
    have scripts3: "send_script w3 = send_script w" "recv_script w3 = recv_script w"
      by (simp_all add: store_flags_result)
    show ?thesis
    proof (cases "server = []")
      case True
      with call us ts err [of "fl w s" w3] show ?thesis by simp
    next
      case ne: False
      from snd scripts3(1)
      have "(\<exists>out \<in> set (send_script w3). send_ends out)
          \<or> nat sizeof_request \<le> length (filter send_progress (send_script w3))"
        by (simp add: sizeof_request_def)
      from do_complete_send_returns [OF refl this] obtain rs w4
        where ds: "do_complete_send s ?msg sizeof_request w3 = Some (rs, w4)"
        by blast
      show ?thesis
      proof (cases "rs = 0")
        case False
        with call us ts ne ds err [of "fl w s" w4] show ?thesis
          by (simp add: negotiate_def Let_def)
      next
        case True
        from do_complete_send_frame [OF ds] rcv scripts3(2)
        have "(\<exists>out \<in> set (recv_script w4). recv_ends out)
            \<or> nat sizeof_response \<le> length (filter recv_progress (recv_script w4))"
          by (simp add: sizeof_response_def)
        from do_complete_recv_returns [OF refl this] obtain rr response w5
          where dr: "do_complete_recv s [] sizeof_response w4 = Some (rr, response, w5)"
          by blast
        with call us ts ne ds True err [of "fl w s" w5] show ?thesis
          by (simp add: negotiate_def Let_def)
      qed
    qed
  qed
qed

section \<open>From the candidates to the handshake\<close>

text \<open>
  A request that passes the filter goes to the proxy; a call through the proxy has called
  \<^verbatim>\<open>send\<close> unless the loop over the addresses has ended on \<^verbatim>\<open>NULL\<close>; and a proxy that takes
  the request at once and answers with a granting response at once makes the call succeed.
\<close>

lemma complete_write_spec_once:
  "0 < m \<Longrightarrow> m \<le> n \<Longrightarrow> complete_write_spec (Sent n # ss) m = Some (0, m, [m], ss)"
  by (cases m) (simp_all add: write_round_def)

lemma complete_read_spec_once:
  "0 < m \<Longrightarrow> m \<le> length bs \<Longrightarrow>
     complete_read_spec (RecvData bs # rs) m = Some (0, take m bs, [m], rs)"
  by (cases m) (auto simp add: read_round_def)

lemma s4_status_take: "2 \<le> n \<Longrightarrow> s4_status (take n bs) = s4_status bs"
proof (cases bs)
  case Nil
  then show ?thesis by simp
next
  case (Cons b0 rest)
  assume "2 \<le> n"
  then obtain k where n: "n = Suc (Suc k)" by (metis add_2_eq_Suc le_Suc_ex)
  with Cons show ?thesis by (cases rest) (simp_all add: s4_status_def)
qed

lemma negotiate_granted:
  assumes snd: "send_script w = Sent n # ss" "9 \<le> n"
    and rcv: "recv_script w = RecvData bs # rs" "8 \<le> length bs"
    and status: "s4_status bs = SOCKS4_REQUEST_GRANTED"
  shows "\<exists>w'. negotiate e s sa flags w = Some (0, w')
           \<and> trace w' = trace w @ [EvSend s 9, EvRecv s 8, EvSetfl s flags]
           \<and> sent w' = sent w @ socks4_connect_message e sa
           \<and> rcvd w' = rcvd w @ take 8 bs"
proof -
  let ?msg = "request_bytes e (template\<lparr>s4_port := sin_port sa, s4_addr := sin_addr sa\<rparr>)"
  have msg: "?msg = socks4_connect_message e sa" by (rule request_bytes_wire)
  have nine: "sizeof_request = int 9" and eight: "sizeof_response = int 8"
    by (simp_all add: sizeof_request_def sizeof_response_def)
  from snd have "complete_write_spec (send_script w) 9 = Some (0, 9, [9], ss)"
    by (simp add: complete_write_spec_once)
  with do_complete_send_refines [OF nine refl, of s ?msg w]
  have "write_seen (do_complete_send s ?msg sizeof_request w)
      = Some (0, sent w @ take 9 ?msg, trace w @ [EvSend s 9], ss)"
    by simp
  then obtain w4 where w4: "do_complete_send s ?msg sizeof_request w = Some (0, w4)"
    "sent w4 = sent w @ take 9 ?msg" "trace w4 = trace w @ [EvSend s 9]"
    by (auto simp: write_seen_def)
  from do_complete_send_frame [OF w4(1)] rcv
  have script4: "recv_script w4 = RecvData bs # rs" and rcvd4: "rcvd w4 = rcvd w"
    by simp_all
  from script4 rcv(2) have "complete_read_spec (recv_script w4) 8 = Some (0, take 8 bs, [8], rs)"
    by (simp add: complete_read_spec_once)
  with do_complete_recv_refines [OF eight refl, of s "[]" w4]
  have "read_seen (do_complete_recv s [] sizeof_response w4)
      = Some (0, take 8 bs, rcvd w4 @ take 8 bs, trace w4 @ [EvRecv s 8], rs)"
    by simp
  then obtain w5 where w5: "do_complete_recv s [] sizeof_response w4 = Some (0, take 8 bs, w5)"
    "rcvd w5 = rcvd w4 @ take 8 bs" "trace w5 = trace w4 @ [EvRecv s 8]"
    by (auto simp: read_seen_def)
  from status have "s4_status (take 8 bs) = SOCKS4_REQUEST_GRANTED"
    by (simp add: s4_status_take)
  with w4(1) w5(1) have "negotiate e s sa flags w = Some (0, fcntl_setfl s flags w5)"
    by (simp add: negotiate_def Let_def)
  moreover from do_complete_recv_frame [OF w5(1)] have "sent w5 = sent w4" by simp
  ultimately show ?thesis
    using w4(2,3) w5(2,3) rcvd4 msg
    by (simp add: fcntl_setfl_def log_def length_connect_message)
qed

lemma use_socks_handshake:
  assumes "use_socks e servers s sa w = Some (r, w')"
  shows "(send_script w' = send_script w)
       = (\<exists>w3. try_servers s servers (snd (store_flags s w)) = Some ([], w3))"
  using assms
proof (cases rule: use_socks_cases)
  case (exhausted w3)
  from try_servers_frame [OF exhausted(1)] goto_error_result [OF exhausted(2)] exhausted(1)
  show ?thesis by (auto simp add: store_flags_result)
next
  case (send_failed server w3 rs w4)
  from do_complete_send_run [OF send_failed(3)] obtain used
    where "send_script w3 = used @ send_script w4" "used \<noteq> []"
    by (auto simp: sizeof_request_def)
  then have "length (send_script w4) \<noteq> length (send_script w3)" by simp
  with try_servers_frame [OF send_failed(1)] goto_error_result [OF send_failed(5)]
    send_failed(1,2)
  show ?thesis by (auto simp add: store_flags_result)
next
  case (recv_failed server w3 w4 rr response w5)
  from do_complete_send_run [OF recv_failed(3)] obtain used
    where "send_script w3 = used @ send_script w4" "used \<noteq> []"
    by (auto simp: sizeof_request_def)
  then have "length (send_script w4) \<noteq> length (send_script w3)" by simp
  with try_servers_frame [OF recv_failed(1)] do_complete_recv_frame [OF recv_failed(4)]
    goto_error_result [OF recv_failed(6)] recv_failed(1,2)
  show ?thesis by (auto simp add: store_flags_result)
next
  case (denied server w3 w4 response w5)
  from do_complete_send_run [OF denied(3)] obtain used
    where "send_script w3 = used @ send_script w4" "used \<noteq> []"
    by (auto simp: sizeof_request_def)
  then have "length (send_script w4) \<noteq> length (send_script w3)" by simp
  with try_servers_frame [OF denied(1)] do_complete_recv_frame [OF denied(4)]
    goto_error_result [OF denied(6)] denied(1,2)
  show ?thesis by (auto simp add: store_flags_result)
next
  case (granted server w3 w4 response w5)
  from do_complete_send_run [OF granted(3)] obtain used
    where "send_script w3 = used @ send_script w4" "used \<noteq> []"
    by (auto simp: sizeof_request_def)
  then have "length (send_script w4) \<noteq> length (send_script w3)" by simp
  with try_servers_frame [OF granted(1)] do_complete_recv_frame [OF granted(4)]
    granted(1,2,7)
  show ?thesis by (auto simp add: store_flags_result fcntl_setfl_def log_def)
qed

lemma connect_uses_socks:
  assumes "servers \<noteq> []" "0 \<le> s" "sizeof_sockaddr \<le> len" "sin_family sa = AF_INET"
    and "sin_addr sa \<noteq> INADDR_ANY" "sin_addr sa \<noteq> INADDR_BROADCAST"
      "\<not> IN_MULTICAST (sin_addr sa)" "first_octet e sa \<noteq> 127"
    and "sockopts w s SO_TYPE = GsoOk SOCK_STREAM sizeof_int"
      "sockopts w s SO_DOMAIN = GsoOk AF_INET_domain sizeof_int"
  shows "connect e servers s (Some sa) len w
       = use_socks e servers s sa
           (w\<lparr>trace := trace w @ [EvGetsockopt s SO_TYPE, EvGetsockopt s SO_DOMAIN]\<rparr>)"
  using assms
  by (auto simp: connect_def Let_def getsockopt_def log_def first_octet_def)

lemma refusals_le: "refusals servers w \<le> length servers"
proof -
  have "refusals servers w \<le> length (take (length servers) (conn_script w))"
    unfolding refusals_def by (rule length_takeWhile_le)
  then show ?thesis by simp
qed

section \<open>Unfolding the model on a concrete input\<close>

lemmas call_defs =
  getsockopt_def fcntl_getfl_def fcntl_setfl_def shutdown_def real_connect_def send_def recv_def
  log_def Let_def

lemmas constant_defs =
  AF_INET_def AF_INET_domain_def SOCK_STREAM_def INADDR_ANY_def INADDR_BROADCAST_def
  IN_MULTICAST_def EINTR_def EAGAIN_def ECONNREFUSED_def O_NONBLOCK_def SHUT_RDWR_def
  sizeof_sockaddr_def sizeof_int_def sizeof_request_def sizeof_response_def
  SOCKS4_REQUEST_GRANTED_def

lemmas library_defs =
  connect_def goto_pass_def goto_error_def negotiate_def store_flags_def use_socks_def
  do_complete_send.simps do_complete_recv.simps template_def request_bytes_def
  store16_def store32_def s4_status_def ntohl_def ntohs_def bswap16_def bswap32_def

lemmas example_defs = tcp_world_def proxy_def proxy2_def target_def multicast_target_def

section \<open>The statements of the specification, C1 to C10\<close>

text \<open>
  A statement about the result of a call is about a call that returns, \<open>Some (r, w')\<close>:
  \<open>r\<close> is the value returned and \<open>w'\<close> the world it leaves. Lemma \<open>connect_returns\<close>
  says when the call does return, and the example after each statement is a run that does.
\<close>

subsection \<open>C1\<close>

text \<open>
  C1. With an empty list of proxy addresses the call is the real \<^verbatim>\<open>connect\<close> on the
  same arguments in the same world, the value of \<^verbatim>\<open>errno\<close> included: the same result,
  the same \<^verbatim>\<open>errno\<close> afterwards, and no other system call is made. This holds for every
  descriptor, address (null or not) and length.
\<close>

theorem connect_without_proxy:
  "connect e [] s addr len w = real_connect s addr len w"
  by (simp add: connect_def goto_pass_def)

text \<open>
  A negative descriptor and a null address, with \<^verbatim>\<open>errno\<close> 5 before the call: the real
  \<^verbatim>\<open>connect\<close> is called with them and its \<^verbatim>\<open>EBADF\<close> (9) is the caller's.
\<close>

theorem connect_without_proxy_witness:
  "connect LittleEndian [] (-1) None 0 (tcp_world\<lparr>errno := 5, conn_script := [ConnErr 9]\<rparr>)
     = Some (-1, tcp_world\<lparr>errno := 9, trace := [EvConnect (-1) None 0]\<rparr>)"
  using connect_without_proxy
    [of LittleEndian "-1" None 0 "tcp_world\<lparr>errno := 5, conn_script := [ConnErr 9]\<rparr>"]
  by (simp add: real_connect_def log_def tcp_world_def)

subsection \<open>C2\<close>

text \<open>
  C2. A request that fails a condition of the filter is to pass through to the real
  \<^verbatim>\<open>connect\<close>; lemma \<open>filter_passes_through\<close> shows it for the conditions as the code
  tests them. The code misses the multicast range on a little-endian host: there the
  target \<^verbatim>\<open>224.0.0.1:80\<close> (first octet 224) goes through the proxy, the real \<^verbatim>\<open>connect\<close> is
  called with the proxy's address and the request is sent. \<^verbatim>\<open>IN_MULTICAST\<close> wants its
  argument in host byte order and is given \<^verbatim>\<open>sin_addr.s_addr\<close> as it is, in network byte
  order, so it looks at the last octet; the loopback test next to it converts with
  \<^verbatim>\<open>ntohl\<close>. On a big-endian host the same target passes through.
\<close>

theorem multicast_target_is_tunnelled:
  "first_octet LittleEndian multicast_target = 224
   \<and> connect LittleEndian [proxy] 3 (Some multicast_target) 16
       (tcp_world\<lparr>conn_script := [ConnOk], send_script := [Sent 9],
          recv_script := [RecvData [0, 0x5A, 0, 0, 0, 0, 0, 0]]\<rparr>)
     = Some (0,
         tcp_world\<lparr>sent := [4, 1, 0, 80, 224, 0, 0, 1, 0], rcvd := [0, 0x5A, 0, 0, 0, 0, 0, 0],
           trace := [EvGetsockopt 3 SO_TYPE, EvGetsockopt 3 SO_DOMAIN, EvGetfl 3, EvSetfl 3 2,
                     EvConnect 3 (Some (ai_addr proxy)) 16, EvSend 3 9, EvRecv 3 8,
                     EvSetfl 3 2]\<rparr>)
   \<and> connect BigEndian [proxy] 3
       (Some \<lparr>sin_family = 2, sin_port = 0x0050, sin_addr = 0xE0000001\<rparr>) 16
       (tcp_world\<lparr>conn_script := [ConnOk]\<rparr>)
     = Some (0,
         tcp_world\<lparr>trace :=
           [EvConnect 3 (Some \<lparr>sin_family = 2, sin_port = 0x0050, sin_addr = 0xE0000001\<rparr>) 16]\<rparr>)"
  by (simp add: first_octet_def library_defs call_defs constant_defs example_defs fun_eq_iff)

theorem multicast_target_is_tunnelled_witness:
  "\<exists>w'. connect LittleEndian [proxy] 3 (Some multicast_target) 16
           (tcp_world\<lparr>conn_script := [ConnOk], send_script := [Sent 9],
              recv_script := [RecvData [0, 0x5A, 0, 0, 0, 0, 0, 0]]\<rparr>) = Some (0, w')
        \<and> EvConnect 3 (Some (ai_addr proxy)) 16 \<in> set (trace w')
        \<and> EvSend 3 9 \<in> set (trace w')"
  using multicast_target_is_tunnelled by simp

subsection \<open>C3\<close>

text \<open>
  C3. When the call has read the whole response (8 bytes were delivered to it), it returns 0
  exactly if the status byte of the response, the second byte received, is \<open>0x5A\<close>. With
  any other status byte it returns -1 with \<^verbatim>\<open>errno\<close> set to a non-zero code, and the last
  thing it does to the socket is \<^verbatim>\<open>shutdown(s, SHUT_RDWR)\<close>.
\<close>

theorem status_byte_decides:
  assumes "connect e servers s addr len w = Some (r, w')"
    and "length (rcvd w') = length (rcvd w) + 8"
  shows "(r = 0) = (s4_status (drop (length (rcvd w)) (rcvd w')) = 0x5A)
       \<and> (r = 0 \<or> r = -1 \<and> errno w' \<noteq> 0 \<and> last (trace w') = EvShutdown s SHUT_RDWR)"
proof -
  from connect_decides [of s e servers addr len w] show ?thesis
  proof (elim disjE exE conjE)
    fix evs
    assume "connect e servers s addr len w = real_connect s addr len (w\<lparr>trace := trace w @ evs\<rparr>)"
    with assms(1) have "real_connect s addr len (w\<lparr>trace := trace w @ evs\<rparr>) = Some (r, w')"
      by simp
    from real_connect_frame [OF this] assms(2) show ?thesis by simp
  next
    fix sa
    assume "connect e servers s addr len w =
      use_socks e servers s sa
        (w\<lparr>trace := trace w @ [EvGetsockopt s SO_TYPE, EvGetsockopt s SO_DOMAIN]\<rparr>)"
    with assms(1) have "use_socks e servers s sa
        (w\<lparr>trace := trace w @ [EvGetsockopt s SO_TYPE, EvGetsockopt s SO_DOMAIN]\<rparr>) = Some (r, w')"
      by simp
    from use_socks_response [OF this] assms(2) show ?thesis by auto
  qed
qed

text \<open>
  The proxy accepts the connection and the request. With status \<open>0x5B\<close> in its answer the
  call fails with \<^verbatim>\<open>ECONNREFUSED\<close> and shuts the socket down; with \<open>0x5A\<close> it returns 0.
\<close>

theorem status_byte_decides_witness:
  "connect LittleEndian [proxy] 3 (Some target) 16
     (tcp_world\<lparr>conn_script := [ConnOk], send_script := [Sent 9],
        recv_script := [RecvData [0, 0x5B, 0, 0, 0, 0, 0, 0]]\<rparr>)
   = Some (-1,
       tcp_world\<lparr>errno := 111, sent := [4, 1, 0, 80, 1, 2, 3, 4, 0],
         rcvd := [0, 0x5B, 0, 0, 0, 0, 0, 0],
         trace := [EvGetsockopt 3 SO_TYPE, EvGetsockopt 3 SO_DOMAIN, EvGetfl 3, EvSetfl 3 2,
                   EvConnect 3 (Some (ai_addr proxy)) 16, EvSend 3 9, EvRecv 3 8,
                   EvSetfl 3 2, EvShutdown 3 2]\<rparr>)
   \<and> s4_status [0, 0x5B, 0, 0, 0, 0, 0, 0] \<noteq> 0x5A
   \<and> connect LittleEndian [proxy] 3 (Some target) 16
       (tcp_world\<lparr>conn_script := [ConnOk], send_script := [Sent 9],
          recv_script := [RecvData [0, 0x5A, 0, 0, 0, 0, 0, 0]]\<rparr>)
     = Some (0,
         tcp_world\<lparr>sent := [4, 1, 0, 80, 1, 2, 3, 4, 0], rcvd := [0, 0x5A, 0, 0, 0, 0, 0, 0],
           trace := [EvGetsockopt 3 SO_TYPE, EvGetsockopt 3 SO_DOMAIN, EvGetfl 3, EvSetfl 3 2,
                     EvConnect 3 (Some (ai_addr proxy)) 16, EvSend 3 9, EvRecv 3 8,
                     EvSetfl 3 2]\<rparr>)
   \<and> s4_status [0, 0x5A, 0, 0, 0, 0, 0, 0] = 0x5A"
proof -
  let ?w = "tcp_world\<lparr>conn_script := [ConnOk], send_script := [Sent 9],
        recv_script := [RecvData [0, 0x5B, 0, 0, 0, 0, 0, 0]]\<rparr>"
  let ?w' = "tcp_world\<lparr>errno := 111, sent := [4, 1, 0, 80, 1, 2, 3, 4, 0],
         rcvd := [0, 0x5B, 0, 0, 0, 0, 0, 0],
         trace := [EvGetsockopt 3 SO_TYPE, EvGetsockopt 3 SO_DOMAIN, EvGetfl 3, EvSetfl 3 2,
                   EvConnect 3 (Some (ai_addr proxy)) 16, EvSend 3 9, EvRecv 3 8,
                   EvSetfl 3 2, EvShutdown 3 2]\<rparr>"
  let ?v = "tcp_world\<lparr>conn_script := [ConnOk], send_script := [Sent 9],
        recv_script := [RecvData [0, 0x5A, 0, 0, 0, 0, 0, 0]]\<rparr>"
  let ?v' = "tcp_world\<lparr>sent := [4, 1, 0, 80, 1, 2, 3, 4, 0], rcvd := [0, 0x5A, 0, 0, 0, 0, 0, 0],
         trace := [EvGetsockopt 3 SO_TYPE, EvGetsockopt 3 SO_DOMAIN, EvGetfl 3, EvSetfl 3 2,
                   EvConnect 3 (Some (ai_addr proxy)) 16, EvSend 3 9, EvRecv 3 8,
                   EvSetfl 3 2]\<rparr>"
  have denied: "connect LittleEndian [proxy] 3 (Some target) 16 ?w = Some (-1, ?w')"
    by (simp add: library_defs call_defs constant_defs example_defs fun_eq_iff)
  have granted: "connect LittleEndian [proxy] 3 (Some target) 16 ?v = Some (0, ?v')"
    by (simp add: library_defs call_defs constant_defs example_defs fun_eq_iff)
  have full: "length (rcvd ?w') = length (rcvd ?w) + 8" "length (rcvd ?v') = length (rcvd ?v) + 8"
    by (simp_all add: tcp_world_def)
  from status_byte_decides [OF denied full(1)] status_byte_decides [OF granted full(2)]
    denied granted
  show ?thesis by (simp add: s4_status_def)
qed

subsection \<open>C4\<close>

text \<open>
  C4. When the call has reached the handshake (it has called \<^verbatim>\<open>send\<close>), the address is
  not null and the bytes the socket has accepted during the call are the first \<open>n\<close> bytes of
  the 9-byte message \<open>04 01\<close>, port (big-endian), address (big-endian), \<open>00\<close>, with the
  port and the address of the caller's \<^verbatim>\<open>sockaddr_in\<close>; all 9 of them whenever the call
  succeeds or has gone on to read the response.
\<close>

theorem request_on_the_wire:
  assumes "connect e servers s addr len w = Some (r, w')"
    and "send_script w' \<noteq> send_script w"
  shows "\<exists>sa n. addr = Some sa
           \<and> sent w' = sent w @ take n (socks4_connect_message e sa)
           \<and> length (socks4_connect_message e sa) = 9
           \<and> (r = 0 \<or> recv_script w' \<noteq> recv_script w \<longrightarrow> n = 9)"
proof -
  from connect_decides [of s e servers addr len w] show ?thesis
  proof (elim disjE exE conjE)
    fix evs
    assume "connect e servers s addr len w = real_connect s addr len (w\<lparr>trace := trace w @ evs\<rparr>)"
    with assms(1) have "real_connect s addr len (w\<lparr>trace := trace w @ evs\<rparr>) = Some (r, w')"
      by simp
    from real_connect_frame [OF this] assms(2) show ?thesis by simp
  next
    fix sa
    assume sa: "addr = Some sa"
      and "connect e servers s addr len w =
      use_socks e servers s sa
        (w\<lparr>trace := trace w @ [EvGetsockopt s SO_TYPE, EvGetsockopt s SO_DOMAIN]\<rparr>)"
    with assms(1) have "use_socks e servers s sa
        (w\<lparr>trace := trace w @ [EvGetsockopt s SO_TYPE, EvGetsockopt s SO_DOMAIN]\<rparr>) = Some (r, w')"
      by simp
    from use_socks_sent [OF this] obtain n
      where "sent w' = sent w @ take n (socks4_connect_message e sa)"
        "r = 0 \<or> recv_script w' \<noteq> recv_script w \<longrightarrow> n = 9"
      by (auto simp: request_bytes_wire)
    with sa show ?thesis
      by (intro exI [of _ sa] exI [of _ n]) (simp add: length_connect_message)
  qed
qed

text \<open>
  The request for \<^verbatim>\<open>1.2.3.4:80\<close> goes out in two pieces around an interrupted \<^verbatim>\<open>send\<close>.
\<close>

theorem request_on_the_wire_witness:
  "connect LittleEndian [proxy] 3 (Some target) 16
     (tcp_world\<lparr>conn_script := [ConnOk], send_script := [Sent 4, SendErr 4, Sent 5],
        recv_script := [RecvData [0, 0x5A, 0, 0, 0, 0, 0, 0]]\<rparr>)
   = Some (0,
       tcp_world\<lparr>errno := 4, sent := [0x04, 0x01, 0, 80, 1, 2, 3, 4, 0x00],
         rcvd := [0, 0x5A, 0, 0, 0, 0, 0, 0],
         trace := [EvGetsockopt 3 SO_TYPE, EvGetsockopt 3 SO_DOMAIN, EvGetfl 3, EvSetfl 3 2,
                   EvConnect 3 (Some (ai_addr proxy)) 16, EvSend 3 9, EvSend 3 5, EvSend 3 5,
                   EvRecv 3 8, EvSetfl 3 2]\<rparr>)
   \<and> socks4_connect_message LittleEndian target = [0x04, 0x01, 0, 80, 1, 2, 3, 4, 0x00]"
proof -
  let ?w = "tcp_world\<lparr>conn_script := [ConnOk], send_script := [Sent 4, SendErr 4, Sent 5],
        recv_script := [RecvData [0, 0x5A, 0, 0, 0, 0, 0, 0]]\<rparr>"
  let ?w' = "tcp_world\<lparr>errno := 4, sent := [0x04, 0x01, 0, 80, 1, 2, 3, 4, 0x00],
         rcvd := [0, 0x5A, 0, 0, 0, 0, 0, 0],
         trace := [EvGetsockopt 3 SO_TYPE, EvGetsockopt 3 SO_DOMAIN, EvGetfl 3, EvSetfl 3 2,
                   EvConnect 3 (Some (ai_addr proxy)) 16, EvSend 3 9, EvSend 3 5, EvSend 3 5,
                   EvRecv 3 8, EvSetfl 3 2]\<rparr>"
  have run: "connect LittleEndian [proxy] 3 (Some target) 16 ?w = Some (0, ?w')"
    by (simp add: library_defs call_defs constant_defs example_defs fun_eq_iff)
  have sent: "send_script ?w' \<noteq> send_script ?w"
    by (simp add: tcp_world_def)
  from request_on_the_wire [OF run sent] obtain n
    where "sent ?w' = sent ?w @ take n (socks4_connect_message LittleEndian target)" and "n = 9"
    by auto
  then have "socks4_connect_message LittleEndian target = [0x04, 0x01, 0, 80, 1, 2, 3, 4, 0x00]"
    by (simp add: tcp_world_def length_connect_message)
  with run show ?thesis by simp
qed

subsection \<open>C5\<close>

text \<open>
  C5. Whenever the call returns, the file status flags of every descriptor are what they
  were before the call: on the way through the proxy the saved flags are written back
  before every return, and the other way never writes them.
\<close>

theorem flags_restored:
  assumes "connect e servers s addr len w = Some (r, w')"
  shows "fl w' = fl w"
proof -
  from connect_decides [of s e servers addr len w] show ?thesis
  proof (elim disjE exE conjE)
    fix evs
    assume "connect e servers s addr len w = real_connect s addr len (w\<lparr>trace := trace w @ evs\<rparr>)"
    with assms have "real_connect s addr len (w\<lparr>trace := trace w @ evs\<rparr>) = Some (r, w')"
      by simp
    from real_connect_frame [OF this] show ?thesis by simp
  next
    fix sa
    assume "connect e servers s addr len w =
      use_socks e servers s sa
        (w\<lparr>trace := trace w @ [EvGetsockopt s SO_TYPE, EvGetsockopt s SO_DOMAIN]\<rparr>)"
    with assms have "use_socks e servers s sa
        (w\<lparr>trace := trace w @ [EvGetsockopt s SO_TYPE, EvGetsockopt s SO_DOMAIN]\<rparr>) = Some (r, w')"
      by simp
    from use_socks_fl [OF this] show ?thesis by simp
  qed
qed

text \<open>
  A non-blocking socket (flags \<open>2050\<close>, \<^verbatim>\<open>O_RDWR | O_NONBLOCK\<close>) whose proxy refuses the
  connection: the flags are cleared to 2 for the attempt and are 2050 again at the return.
\<close>

theorem flags_restored_witness:
  "connect LittleEndian [proxy] 3 (Some target) 16
     (tcp_world\<lparr>fl := (\<lambda>s. 2050), conn_script := [ConnErr 111]\<rparr>)
   = Some (-1,
       tcp_world\<lparr>errno := 111, fl := (\<lambda>s. 2050),
         trace := [EvGetsockopt 3 SO_TYPE, EvGetsockopt 3 SO_DOMAIN, EvGetfl 3, EvSetfl 3 2,
                   EvConnect 3 (Some (ai_addr proxy)) 16, EvSetfl 3 2050, EvShutdown 3 2]\<rparr>)
   \<and> fl (tcp_world\<lparr>errno := 111, fl := (\<lambda>s. 2050),
         trace := [EvGetsockopt 3 SO_TYPE, EvGetsockopt 3 SO_DOMAIN, EvGetfl 3, EvSetfl 3 2,
                   EvConnect 3 (Some (ai_addr proxy)) 16, EvSetfl 3 2050, EvShutdown 3 2]\<rparr>)
     = fl (tcp_world\<lparr>fl := (\<lambda>s. 2050), conn_script := [ConnErr 111]\<rparr>)"
proof -
  let ?w = "tcp_world\<lparr>fl := (\<lambda>s. 2050), conn_script := [ConnErr 111]\<rparr>"
  let ?w' = "tcp_world\<lparr>errno := 111, fl := (\<lambda>s. 2050),
         trace := [EvGetsockopt 3 SO_TYPE, EvGetsockopt 3 SO_DOMAIN, EvGetfl 3, EvSetfl 3 2,
                   EvConnect 3 (Some (ai_addr proxy)) 16, EvSetfl 3 2050, EvShutdown 3 2]\<rparr>"
  have run: "connect LittleEndian [proxy] 3 (Some target) 16 ?w = Some (-1, ?w')"
    by (simp add: library_defs call_defs constant_defs example_defs fun_eq_iff)
  from flags_restored [OF run] run show ?thesis by simp
qed

subsection \<open>C6\<close>

text \<open>
  C6. The error code of a failed negotiation is to be the one the failing operation has
  set, and \<^verbatim>\<open>ECONNREFUSED\<close> (111) if it has set none. The code misses this where
  \<^verbatim>\<open>errno\<close> is not 0 at entry: here it is 2 (\<^verbatim>\<open>ENOENT\<close>) before the call, the proxy accepts
  the connection and the request and answers with status \<open>0x5B\<close>. No system call has
  failed, yet the call returns -1 with \<^verbatim>\<open>errno\<close> 2 and not 111: the label \<^verbatim>\<open>error:\<close> takes
  \<^verbatim>\<open>errno\<close> as it stands (\<^verbatim>\<open>errno ? errno : ECONNREFUSED\<close>), and nothing has cleared it
  since the call began. Lemma \<open>error_exit_errno\<close> gives the code of every such exit.
\<close>

theorem denial_reports_stale_errno:
  "connect LittleEndian [proxy] 3 (Some target) 16
     (tcp_world\<lparr>errno := 2, conn_script := [ConnOk], send_script := [Sent 9],
        recv_script := [RecvData [0, 0x5B, 0, 0, 0, 0, 0, 0]]\<rparr>)
   = Some (-1,
       tcp_world\<lparr>errno := 2, sent := [4, 1, 0, 80, 1, 2, 3, 4, 0],
         rcvd := [0, 0x5B, 0, 0, 0, 0, 0, 0],
         trace := [EvGetsockopt 3 SO_TYPE, EvGetsockopt 3 SO_DOMAIN, EvGetfl 3, EvSetfl 3 2,
                   EvConnect 3 (Some (ai_addr proxy)) 16, EvSend 3 9, EvRecv 3 8,
                   EvSetfl 3 2, EvShutdown 3 2]\<rparr>)"
  by (simp add: library_defs call_defs constant_defs example_defs fun_eq_iff)

theorem denial_reports_stale_errno_witness:
  "\<exists>w'. connect LittleEndian [proxy] 3 (Some target) 16
           (tcp_world\<lparr>errno := 2, conn_script := [ConnOk], send_script := [Sent 9],
              recv_script := [RecvData [0, 0x5B, 0, 0, 0, 0, 0, 0]]\<rparr>) = Some (-1, w')
        \<and> errno w' = 2 \<and> errno w' \<noteq> ECONNREFUSED"
  using denial_reports_stale_errno by (simp add: ECONNREFUSED_def)

subsection \<open>C7\<close>

text \<open>
  C7. When the peer closes after fewer than 8 response bytes, the read loop is to report
  failure, the call is to fail with an error code the handshake determines, and the socket
  is to be shut down. The loop does return 1, the call does return -1 and the socket is
  shut down (lemma \<open>premature_close_shuts_down\<close>), but the error code is not determined by
  the handshake. Here the proxy accepts the connection and the request, sends 3 of the 8
  bytes and closes, and no system call fails: the call returns with \<^verbatim>\<open>errno\<close> 2 if \<^verbatim>\<open>errno\<close>
  was 2 (\<^verbatim>\<open>ENOENT\<close>) before the call, 13 if it was 13 (\<^verbatim>\<open>EACCES\<close>), and
  \<^verbatim>\<open>ECONNREFUSED\<close> (111) only if it was 0; and with 4 (\<^verbatim>\<open>EINTR\<close>) if the \<^verbatim>\<open>send\<close> of the
  request was interrupted once and then went through. A zero-length read sets no
  \<^verbatim>\<open>errno\<close>, and the label \<^verbatim>\<open>error:\<close> takes \<^verbatim>\<open>errno\<close> as it stands
  (\<^verbatim>\<open>errno ? errno : ECONNREFUSED\<close>), which nothing has cleared since the call began: the
  defect of C6.
\<close>

theorem premature_close_reports_stale_errno:
  "connect LittleEndian [proxy] 3 (Some target) 16
     (tcp_world\<lparr>errno := 2, conn_script := [ConnOk], send_script := [Sent 9],
        recv_script := [RecvData [0, 0x5A, 0], RecvData []]\<rparr>)
   = Some (-1,
       tcp_world\<lparr>errno := 2, sent := [4, 1, 0, 80, 1, 2, 3, 4, 0], rcvd := [0, 0x5A, 0],
         trace := [EvGetsockopt 3 SO_TYPE, EvGetsockopt 3 SO_DOMAIN, EvGetfl 3, EvSetfl 3 2,
                   EvConnect 3 (Some (ai_addr proxy)) 16, EvSend 3 9, EvRecv 3 8, EvRecv 3 5,
                   EvSetfl 3 2, EvShutdown 3 2]\<rparr>)
   \<and> connect LittleEndian [proxy] 3 (Some target) 16
     (tcp_world\<lparr>errno := 13, conn_script := [ConnOk], send_script := [Sent 9],
        recv_script := [RecvData [0, 0x5A, 0], RecvData []]\<rparr>)
   = Some (-1,
       tcp_world\<lparr>errno := 13, sent := [4, 1, 0, 80, 1, 2, 3, 4, 0], rcvd := [0, 0x5A, 0],
         trace := [EvGetsockopt 3 SO_TYPE, EvGetsockopt 3 SO_DOMAIN, EvGetfl 3, EvSetfl 3 2,
                   EvConnect 3 (Some (ai_addr proxy)) 16, EvSend 3 9, EvRecv 3 8, EvRecv 3 5,
                   EvSetfl 3 2, EvShutdown 3 2]\<rparr>)
   \<and> connect LittleEndian [proxy] 3 (Some target) 16
     (tcp_world\<lparr>conn_script := [ConnOk], send_script := [Sent 9],
        recv_script := [RecvData [0, 0x5A, 0], RecvData []]\<rparr>)
   = Some (-1,
       tcp_world\<lparr>errno := 111, sent := [4, 1, 0, 80, 1, 2, 3, 4, 0], rcvd := [0, 0x5A, 0],
         trace := [EvGetsockopt 3 SO_TYPE, EvGetsockopt 3 SO_DOMAIN, EvGetfl 3, EvSetfl 3 2,
                   EvConnect 3 (Some (ai_addr proxy)) 16, EvSend 3 9, EvRecv 3 8, EvRecv 3 5,
                   EvSetfl 3 2, EvShutdown 3 2]\<rparr>)
   \<and> connect LittleEndian [proxy] 3 (Some target) 16
     (tcp_world\<lparr>conn_script := [ConnOk], send_script := [SendErr 4, Sent 9],
        recv_script := [RecvData [0, 0x5A, 0], RecvData []]\<rparr>)
   = Some (-1,
       tcp_world\<lparr>errno := 4, sent := [4, 1, 0, 80, 1, 2, 3, 4, 0], rcvd := [0, 0x5A, 0],
         trace := [EvGetsockopt 3 SO_TYPE, EvGetsockopt 3 SO_DOMAIN, EvGetfl 3, EvSetfl 3 2,
                   EvConnect 3 (Some (ai_addr proxy)) 16, EvSend 3 9, EvSend 3 9,
                   EvRecv 3 8, EvRecv 3 5, EvSetfl 3 2, EvShutdown 3 2]\<rparr>)"
  by (simp add: library_defs call_defs constant_defs example_defs fun_eq_iff)

theorem premature_close_reports_stale_errno_witness:
  "\<exists>w1 w2 w3.
     connect LittleEndian [proxy] 3 (Some target) 16
       (tcp_world\<lparr>errno := 2, conn_script := [ConnOk], send_script := [Sent 9],
          recv_script := [RecvData [0, 0x5A, 0], RecvData []]\<rparr>) = Some (-1, w1)
     \<and> connect LittleEndian [proxy] 3 (Some target) 16
       (tcp_world\<lparr>errno := 13, conn_script := [ConnOk], send_script := [Sent 9],
          recv_script := [RecvData [0, 0x5A, 0], RecvData []]\<rparr>) = Some (-1, w2)
     \<and> connect LittleEndian [proxy] 3 (Some target) 16
       (tcp_world\<lparr>conn_script := [ConnOk], send_script := [Sent 9],
          recv_script := [RecvData [0, 0x5A, 0], RecvData []]\<rparr>) = Some (-1, w3)
     \<and> errno w1 = 2 \<and> errno w2 = 13 \<and> errno w3 = ECONNREFUSED
     \<and> rcvd w1 = rcvd w3 \<and> sent w1 = sent w3 \<and> trace w1 = trace w3
     \<and> rcvd w2 = rcvd w3 \<and> sent w2 = sent w3 \<and> trace w2 = trace w3"
  using premature_close_reports_stale_errno by (simp add: ECONNREFUSED_def)

subsection \<open>C8\<close>

text \<open>
  C8. With at least as many outcomes scripted as there are addresses, and \<open>k\<close> the number
  of addresses that refuse before one accepts: the loop calls the real \<^verbatim>\<open>connect\<close> on the
  socket for the addresses in the order of the list, one call each, up to and including
  the first that accepts, and leaves \<^verbatim>\<open>server\<close> at that address; \<^verbatim>\<open>server\<close> is null exactly
  if every one of them has refused, and it is the last node if the first \<open>N - 1\<close> refuse
  and the last accepts.

  If all \<open>N\<close> refuse, the call returns -1 having made no call but the \<open>N\<close> connects between
  the two pairs of flag and shutdown calls: nothing is sent or received. If one accepts,
  the call is the negotiation on the connection made, started after exactly \<open>k + 1\<close>
  connects, the last of them to the address that accepted. So a call that returns has left
  \<^verbatim>\<open>send\<close> uncalled exactly if all \<open>N\<close> have refused. And if one accepts and the proxy takes
  the request and answers at once with a granting response, the call returns 0, its
  system calls being the two on the flags, the \<open>k + 1\<close> connects in the order of the list,
  one \<^verbatim>\<open>send\<close> of the 9 bytes of the request, one \<^verbatim>\<open>recv\<close> and the restoring of the flags.
  A request that passes the filter is such a call, after the two option queries.
\<close>

theorem candidates_in_order:
  assumes "servers \<noteq> []" and "length servers \<le> length (conn_script w)"
  shows "(\<exists>w1. try_servers s servers w = Some (drop (refusals servers w) servers, w1)
            \<and> trace w1 = trace w @ map (connect_event s) (take (Suc (refusals servers w)) servers))
       \<and> (drop (refusals servers w) servers = [])
            = (\<forall>out \<in> set (take (length servers) (conn_script w)). refused out)
       \<and> (refusals servers w = length servers - 1 \<longrightarrow>
             drop (refusals servers w) servers = [last servers])
       \<and> (refusals servers w = length servers \<longrightarrow>
             (\<exists>w2. use_socks e servers s sa w = Some (-1, w2)
                \<and> trace w2 = trace w
                      @ [EvGetfl s, EvSetfl s (fl w s AND NOT O_NONBLOCK)]
                      @ map (connect_event s) servers
                      @ [EvSetfl s (fl w s), EvShutdown s SHUT_RDWR]
                \<and> sent w2 = sent w \<and> send_script w2 = send_script w
                \<and> recv_script w2 = recv_script w))
       \<and> (refusals servers w < length servers \<longrightarrow>
             (\<exists>w3. try_servers s servers (snd (store_flags s w))
                      = Some (drop (refusals servers w) servers, w3)
                \<and> trace w3 = trace w
                      @ [EvGetfl s, EvSetfl s (fl w s AND NOT O_NONBLOCK)]
                      @ map (connect_event s) (take (Suc (refusals servers w)) servers)
                \<and> sent w3 = sent w \<and> send_script w3 = send_script w
                \<and> recv_script w3 = recv_script w
                \<and> use_socks e servers s sa w = negotiate e s sa (fl w s) w3))
       \<and> (use_socks e servers s sa w = Some (r, w') \<longrightarrow>
             (send_script w' = send_script w) = (refusals servers w = length servers))
       \<and> (refusals servers w < length servers
             \<and> send_script w = Sent n # ss \<and> 9 \<le> n
             \<and> recv_script w = RecvData bs # rs \<and> 8 \<le> length bs
             \<and> s4_status bs = SOCKS4_REQUEST_GRANTED \<longrightarrow>
             (\<exists>w2. use_socks e servers s sa w = Some (0, w2)
                \<and> trace w2 = trace w
                      @ [EvGetfl s, EvSetfl s (fl w s AND NOT O_NONBLOCK)]
                      @ map (connect_event s) (take (Suc (refusals servers w)) servers)
                      @ [EvSend s 9, EvRecv s 8, EvSetfl s (fl w s)]
                \<and> sent w2 = sent w @ socks4_connect_message e sa))
       \<and> (0 \<le> s \<and> sizeof_sockaddr \<le> len \<and> sin_family sa = AF_INET
             \<and> sin_addr sa \<noteq> INADDR_ANY \<and> sin_addr sa \<noteq> INADDR_BROADCAST
             \<and> \<not> IN_MULTICAST (sin_addr sa) \<and> first_octet e sa \<noteq> 127
             \<and> sockopts w s SO_TYPE = GsoOk SOCK_STREAM sizeof_int
             \<and> sockopts w s SO_DOMAIN = GsoOk AF_INET_domain sizeof_int \<longrightarrow>
             connect e servers s (Some sa) len w
               = use_socks e servers s sa
                   (w\<lparr>trace := trace w @ [EvGetsockopt s SO_TYPE, EvGetsockopt s SO_DOMAIN]\<rparr>))"
proof -
  let ?k = "refusals servers w"
  let ?p = "snd (store_flags s w)"
  have script: "conn_script ?p = conn_script w" and tr: "trace ?p = trace w
      @ [EvGetfl s, EvSetfl s (fl w s AND NOT O_NONBLOCK)]"
    by (simp_all add: store_flags_result)
  from script have same: "refusals servers ?p = ?k"
    by (simp add: refusals_def)
  from assms(2) script have "length servers \<le> length (conn_script ?p)" by simp
  from try_servers_script [OF this, of s] same obtain w3
    where w3: "try_servers s servers ?p = Some (drop ?k servers, w3)"
      "trace w3 = trace ?p @ map (connect_event s) (take (Suc ?k) servers)"
    by auto
  from try_servers_frame [OF w3(1)]
  have frame3: "sent w3 = sent w" "send_script w3 = send_script w"
    "recv_script w3 = recv_script w"
    by (simp_all add: store_flags_result)
  have call: "use_socks e servers s sa w =
      (if drop ?k servers = [] then goto_error s (fl w s) w3 else negotiate e s sa (fl w s) w3)"
    using w3(1) by (simp add: use_socks_def store_flags_result)
  have loop: "\<exists>w1. try_servers s servers w = Some (drop ?k servers, w1)
      \<and> trace w1 = trace w @ map (connect_event s) (take (Suc ?k) servers)"
    by (rule try_servers_script [OF assms(2)])
  have last: "drop ?k servers = [last servers]" if "?k = length servers - 1"
  proof -
    from assms(1) have "servers = butlast servers @ [last servers]" by simp
    then have "drop (length servers - 1) servers = [last servers]"
      by (metis append_eq_conv_conj length_butlast)
    with that show ?thesis by simp
  qed
  have all: "\<exists>w2. use_socks e servers s sa w = Some (-1, w2)
      \<and> trace w2 = trace w
            @ [EvGetfl s, EvSetfl s (fl w s AND NOT O_NONBLOCK)]
            @ map (connect_event s) servers
            @ [EvSetfl s (fl w s), EvShutdown s SHUT_RDWR]
      \<and> sent w2 = sent w \<and> send_script w2 = send_script w
      \<and> recv_script w2 = recv_script w"
    if k: "?k = length servers"
  proof -
    obtain w2 where w2: "goto_error s (fl w s) w3 = Some (-1, w2)"
      by (simp add: goto_error_def Let_def)
    with call k have "use_socks e servers s sa w = Some (-1, w2)" by simp
    with goto_error_result [OF w2] frame3 w3(2) tr k show ?thesis by simp
  qed
  have some: "\<exists>w3. try_servers s servers (snd (store_flags s w)) = Some (drop ?k servers, w3)
      \<and> trace w3 = trace w
            @ [EvGetfl s, EvSetfl s (fl w s AND NOT O_NONBLOCK)]
            @ map (connect_event s) (take (Suc ?k) servers)
      \<and> sent w3 = sent w \<and> send_script w3 = send_script w
      \<and> recv_script w3 = recv_script w
      \<and> use_socks e servers s sa w = negotiate e s sa (fl w s) w3"
    if k: "?k < length servers"
    using w3 frame3 tr call k by (intro exI [of _ w3]) simp
  have handshake: "(send_script w' = send_script w) = (?k = length servers)"
    if run: "use_socks e servers s sa w = Some (r, w')"
  proof -
    from use_socks_handshake [OF run] w3(1)
    have "(send_script w' = send_script w) = (drop ?k servers = [])" by auto
    with refusals_le [of servers w] show ?thesis by auto
  qed
  have success: "\<exists>w2. use_socks e servers s sa w = Some (0, w2)
      \<and> trace w2 = trace w
            @ [EvGetfl s, EvSetfl s (fl w s AND NOT O_NONBLOCK)]
            @ map (connect_event s) (take (Suc ?k) servers)
            @ [EvSend s 9, EvRecv s 8, EvSetfl s (fl w s)]
      \<and> sent w2 = sent w @ socks4_connect_message e sa"
    if k: "?k < length servers"
      and scripts: "send_script w = Sent n # ss" "9 \<le> n"
        "recv_script w = RecvData bs # rs" "8 \<le> length bs"
      and status: "s4_status bs = SOCKS4_REQUEST_GRANTED"
  proof -
    from scripts frame3
    have "send_script w3 = Sent n # ss" "recv_script w3 = RecvData bs # rs"
      by simp_all
    from negotiate_granted [OF this(1) scripts(2) this(2) scripts(4) status, of e s sa "fl w s"]
    obtain w2 where "negotiate e s sa (fl w s) w3 = Some (0, w2)"
      "trace w2 = trace w3 @ [EvSend s 9, EvRecv s 8, EvSetfl s (fl w s)]"
      "sent w2 = sent w3 @ socks4_connect_message e sa"
      by blast
    with call k w3(2) tr frame3 show ?thesis by simp
  qed
  have through: "connect e servers s (Some sa) len w
      = use_socks e servers s sa
          (w\<lparr>trace := trace w @ [EvGetsockopt s SO_TYPE, EvGetsockopt s SO_DOMAIN]\<rparr>)"
    if "0 \<le> s \<and> sizeof_sockaddr \<le> len \<and> sin_family sa = AF_INET
        \<and> sin_addr sa \<noteq> INADDR_ANY \<and> sin_addr sa \<noteq> INADDR_BROADCAST
        \<and> \<not> IN_MULTICAST (sin_addr sa) \<and> first_octet e sa \<noteq> 127
        \<and> sockopts w s SO_TYPE = GsoOk SOCK_STREAM sizeof_int
        \<and> sockopts w s SO_DOMAIN = GsoOk AF_INET_domain sizeof_int"
    using connect_uses_socks [OF assms(1), of s len sa e w] that by blast
  from loop refusals_all [OF assms(2)] last all some handshake success through
  show ?thesis by blast
qed

text \<open>
  Two addresses. The first refuses and the second accepts: two connects, in this order,
  and \<^verbatim>\<open>server\<close> is the second node; with a proxy that grants, the call succeeds through the
  second address. Both refuse: the call fails and has sent nothing. The first accepts: the
  second is not tried.
\<close>

theorem candidates_in_order_witness:
  "(\<exists>w1. try_servers 3 [proxy, proxy2] (tcp_world\<lparr>conn_script := [ConnErr 111, ConnOk]\<rparr>)
            = Some ([proxy2], w1)
        \<and> trace w1 = [connect_event 3 proxy, connect_event 3 proxy2])
   \<and> (\<exists>w2. use_socks LittleEndian [proxy, proxy2] 3 target
              (tcp_world\<lparr>conn_script := [ConnErr 111, ConnErr 113]\<rparr>) = Some (-1, w2)
        \<and> trace w2 = [EvGetfl 3, EvSetfl 3 2, connect_event 3 proxy, connect_event 3 proxy2,
                       EvSetfl 3 2, EvShutdown 3 2]
        \<and> sent w2 = [])
   \<and> (\<exists>w2. use_socks LittleEndian [proxy, proxy2] 3 target
              (tcp_world\<lparr>conn_script := [ConnErr 111, ConnOk], send_script := [Sent 9],
                 recv_script := [RecvData [0, 0x5A, 0, 0, 0, 0, 0, 0]]\<rparr>) = Some (0, w2)
        \<and> trace w2 = [EvGetfl 3, EvSetfl 3 2, connect_event 3 proxy, connect_event 3 proxy2,
                       EvSend 3 9, EvRecv 3 8, EvSetfl 3 2]
        \<and> sent w2 = [4, 1, 0, 80, 1, 2, 3, 4, 0])
   \<and> (\<exists>w2. use_socks LittleEndian [proxy, proxy2] 3 target
              (tcp_world\<lparr>conn_script := [ConnOk, ConnOk], send_script := [Sent 9],
                 recv_script := [RecvData [0, 0x5A, 0, 0, 0, 0, 0, 0]]\<rparr>) = Some (0, w2)
        \<and> trace w2 = [EvGetfl 3, EvSetfl 3 2, connect_event 3 proxy,
                       EvSend 3 9, EvRecv 3 8, EvSetfl 3 2])
   \<and> (\<exists>w2. connect LittleEndian [proxy, proxy2] 3 (Some target) 16
              (tcp_world\<lparr>conn_script := [ConnErr 111, ConnOk], send_script := [Sent 9],
                 recv_script := [RecvData [0, 0x5A, 0, 0, 0, 0, 0, 0]]\<rparr>) = Some (0, w2)
        \<and> trace w2 = [EvGetsockopt 3 SO_TYPE, EvGetsockopt 3 SO_DOMAIN,
                       EvGetfl 3, EvSetfl 3 2, connect_event 3 proxy, connect_event 3 proxy2,
                       EvSend 3 9, EvRecv 3 8, EvSetfl 3 2])"
proof -
  let ?last = "tcp_world\<lparr>conn_script := [ConnErr 111, ConnOk]\<rparr>"
  let ?none = "tcp_world\<lparr>conn_script := [ConnErr 111, ConnErr 113]\<rparr>"
  let ?second = "tcp_world\<lparr>conn_script := [ConnErr 111, ConnOk], send_script := [Sent 9],
        recv_script := [RecvData [0, 0x5A, 0, 0, 0, 0, 0, 0]]\<rparr>"
  let ?first = "tcp_world\<lparr>conn_script := [ConnOk, ConnOk], send_script := [Sent 9],
        recv_script := [RecvData [0, 0x5A, 0, 0, 0, 0, 0, 0]]\<rparr>"
  let ?queried = "tcp_world\<lparr>conn_script := [ConnErr 111, ConnOk], send_script := [Sent 9],
        recv_script := [RecvData [0, 0x5A, 0, 0, 0, 0, 0, 0]],
        trace := [EvGetsockopt 3 SO_TYPE, EvGetsockopt 3 SO_DOMAIN]\<rparr>"
  have ne: "[proxy, proxy2] \<noteq> []" by simp
  have enough: "length [proxy, proxy2] \<le> length (conn_script ?last)"
    "length [proxy, proxy2] \<le> length (conn_script ?none)"
    "length [proxy, proxy2] \<le> length (conn_script ?second)"
    "length [proxy, proxy2] \<le> length (conn_script ?first)"
    "length [proxy, proxy2] \<le> length (conn_script ?queried)"
    by simp_all
  have k: "refusals [proxy, proxy2] ?last = 1" "refusals [proxy, proxy2] ?none = 2"
    "refusals [proxy, proxy2] ?second = 1" "refusals [proxy, proxy2] ?first = 0"
    "refusals [proxy, proxy2] ?queried = 1"
    by (simp_all add: refusals_def refused_def)
  have before: "trace tcp_world = []" "sent tcp_world = []" "fl tcp_world 3 = 2"
    by (simp_all add: tcp_world_def)
  have message: "socks4_connect_message LittleEndian target = [4, 1, 0, 80, 1, 2, 3, 4, 0]"
    by (simp add: socks4_connect_message_def be16_def be32_def ntohs_def ntohl_def
        bswap16_def bswap32_def target_def)
  have granting: "s4_status [0, 0x5A, 0, 0, 0, 0, 0, 0] = SOCKS4_REQUEST_GRANTED"
    by (simp add: s4_status_def SOCKS4_REQUEST_GRANTED_def)
  have request: "0 \<le> (3::int) \<and> sizeof_sockaddr \<le> 16 \<and> sin_family target = AF_INET
      \<and> sin_addr target \<noteq> INADDR_ANY \<and> sin_addr target \<noteq> INADDR_BROADCAST
      \<and> \<not> IN_MULTICAST (sin_addr target) \<and> first_octet LittleEndian target \<noteq> 127
      \<and> sockopts ?second 3 SO_TYPE = GsoOk SOCK_STREAM sizeof_int
      \<and> sockopts ?second 3 SO_DOMAIN = GsoOk AF_INET_domain sizeof_int"
    by (simp add: constant_defs target_def tcp_world_def first_octet_def ntohl_def bswap32_def)
  from candidates_in_order [OF ne enough(1), of 3 LittleEndian target, THEN conjunct1]
  have one: "\<exists>w1. try_servers 3 [proxy, proxy2] ?last = Some ([proxy2], w1)
      \<and> trace w1 = [connect_event 3 proxy, connect_event 3 proxy2]"
    by (auto simp add: k before simp del: try_servers.simps)
  from candidates_in_order [OF ne enough(2), of 3 LittleEndian target,
      THEN conjunct2, THEN conjunct2, THEN conjunct2, THEN conjunct1]
  have two: "\<exists>w2. use_socks LittleEndian [proxy, proxy2] 3 target ?none = Some (-1, w2)
      \<and> trace w2 = [EvGetfl 3, EvSetfl 3 2, connect_event 3 proxy, connect_event 3 proxy2,
                     EvSetfl 3 2, EvShutdown 3 2]
      \<and> sent w2 = []"
    by (auto simp add: k before O_NONBLOCK_def SHUT_RDWR_def simp del: try_servers.simps)
  note success = conjunct2 [THEN conjunct2, THEN conjunct2, THEN conjunct2, THEN conjunct2,
      THEN conjunct2, THEN conjunct1, rule_format]
  have three: "\<exists>w2. use_socks LittleEndian [proxy, proxy2] 3 target ?second = Some (0, w2)
      \<and> trace w2 = [EvGetfl 3, EvSetfl 3 2, connect_event 3 proxy, connect_event 3 proxy2,
                     EvSend 3 9, EvRecv 3 8, EvSetfl 3 2]
      \<and> sent w2 = [4, 1, 0, 80, 1, 2, 3, 4, 0]"
    using candidates_in_order [OF ne enough(3), of 3 LittleEndian target, THEN success,
        of 9 "[]" "[0, 0x5A, 0, 0, 0, 0, 0, 0]" "[]"] granting
    by (simp add: k before message O_NONBLOCK_def)
  have four: "\<exists>w2. use_socks LittleEndian [proxy, proxy2] 3 target ?first = Some (0, w2)
      \<and> trace w2 = [EvGetfl 3, EvSetfl 3 2, connect_event 3 proxy,
                     EvSend 3 9, EvRecv 3 8, EvSetfl 3 2]"
    using candidates_in_order [OF ne enough(4), of 3 LittleEndian target, THEN success,
        of 9 "[]" "[0, 0x5A, 0, 0, 0, 0, 0, 0]" "[]"] granting
    by (auto simp add: k before message O_NONBLOCK_def)
  have "\<exists>w2. use_socks LittleEndian [proxy, proxy2] 3 target ?queried = Some (0, w2)
      \<and> trace w2 = [EvGetsockopt 3 SO_TYPE, EvGetsockopt 3 SO_DOMAIN,
                     EvGetfl 3, EvSetfl 3 2, connect_event 3 proxy, connect_event 3 proxy2,
                     EvSend 3 9, EvRecv 3 8, EvSetfl 3 2]"
    using candidates_in_order [OF ne enough(5), of 3 LittleEndian target, THEN success,
        of 9 "[]" "[0, 0x5A, 0, 0, 0, 0, 0, 0]" "[]"] granting
    by (auto simp add: k before message O_NONBLOCK_def)
  moreover
  from candidates_in_order [OF ne enough(3), of 3 LittleEndian target,
      THEN conjunct2, THEN conjunct2, THEN conjunct2, THEN conjunct2, THEN conjunct2,
      THEN conjunct2, THEN conjunct2, rule_format, of 16, OF request]
  have "connect LittleEndian [proxy, proxy2] 3 (Some target) 16 ?second
      = use_socks LittleEndian [proxy, proxy2] 3 target ?queried"
    by (simp add: before)
  ultimately
  have five: "\<exists>w2. connect LittleEndian [proxy, proxy2] 3 (Some target) 16 ?second = Some (0, w2)
      \<and> trace w2 = [EvGetsockopt 3 SO_TYPE, EvGetsockopt 3 SO_DOMAIN,
                     EvGetfl 3, EvSetfl 3 2, connect_event 3 proxy, connect_event 3 proxy2,
                     EvSend 3 9, EvRecv 3 8, EvSetfl 3 2]"
    by simp
  from one two three four five show ?thesis by blast
qed

subsection \<open>C9\<close>

text \<open>
  C9. For every sequence of outcomes of \<^verbatim>\<open>send\<close> and \<^verbatim>\<open>recv\<close>, each loop is the loop
  the specification describes (\<open>complete_write_spec\<close>, \<open>complete_read_spec\<close>): a transfer
  moves the cursor by the number of bytes transferred and the next round asks for the
  rest; a round is repeated with the same cursor and length after a transient error
  (\<^verbatim>\<open>EINTR\<close>, \<^verbatim>\<open>EAGAIN\<close>) and, in the write loop, after a \<^verbatim>\<open>send\<close> that returned 0; any other
  error ends the loop at once with -1 and a zero-length read ends the read loop at once
  with 1; the result is 0 once all bytes are moved; and the loop does not return exactly if
  the outcomes run out while bytes are missing. The result, the bytes the socket has
  accepted or delivered, the buffer, the calls made with the length each has asked for, and
  the outcomes left over are the same on both sides.

  Hence, in a run that returns, every outcome used but the last is a transfer of at least
  one byte, a transient error or (write loop) a \<^verbatim>\<open>send\<close> that returned 0; the number of
  rounds is at most the number of bytes asked for plus the number of rounds repeated; the
  bytes accepted are the buffer's first \<open>k\<close> bytes in order, all of them if the loop returns
  0; the read loop returns 0 exactly if it has stored all \<open>n\<close> bytes. Each loop does return
  if the outcomes to come hold one that ends it, or as many transfers as there are bytes to
  move.
\<close>

theorem complete_loops_progress:
  assumes "len = int (length data)" and "0 \<le> n"
  shows "write_seen (do_complete_send s data len w)
           = map_option (\<lambda>(r, moved, rounds, rest).
               (r, sent w @ take moved data, trace w @ map (\<lambda>a. EvSend s (int a)) rounds, rest))
               (complete_write_spec (send_script w) (length data))
       \<and> read_seen (do_complete_recv s buf n v)
           = map_option (\<lambda>(rr, moved, rounds, rest).
               (rr, buf @ moved, rcvd v @ moved,
                trace v @ map (\<lambda>a. EvRecv s (int a)) rounds, rest))
               (complete_read_spec (recv_script v) (nat n))
       \<and> (do_complete_send s data len w = Some (r, w') \<longrightarrow>
           (\<exists>used k. send_script w = used @ send_script w'
              \<and> (\<forall>out \<in> set (butlast used).
                    send_progress out \<or> send_transient out \<or> out = Sent 0)
              \<and> length used
                  \<le> length data
                    + length (filter (\<lambda>out. send_transient out \<or> out = Sent 0) used)
              \<and> sent w' = sent w @ take k data \<and> (r = 0 \<longrightarrow> k = length data)))
       \<and> (do_complete_recv s buf n v = Some (rr, buf', v') \<longrightarrow>
           (\<exists>used new. recv_script v = used @ recv_script v'
              \<and> (\<forall>out \<in> set (butlast used). recv_progress out \<or> recv_transient out)
              \<and> length used \<le> nat n + length (filter recv_transient used)
              \<and> buf' = buf @ new \<and> rcvd v' = rcvd v @ new
              \<and> (rr = 0) = (int (length new) = n)))
       \<and> ((\<exists>out \<in> set (send_script w). send_ends out)
            \<or> length data \<le> length (filter send_progress (send_script w))
          \<longrightarrow> (\<exists>r w'. do_complete_send s data len w = Some (r, w')))
       \<and> ((\<exists>out \<in> set (recv_script v). recv_ends out)
            \<or> nat n \<le> length (filter recv_progress (recv_script v))
          \<longrightarrow> (\<exists>rr buf' v'. do_complete_recv s buf n v = Some (rr, buf', v')))"
proof -
  note send_spec = do_complete_send_refines [OF assms(1) refl, where s = s and w = w]
  from assms(2) have "n = int (nat n)" by simp
  note recv_spec = do_complete_recv_refines [OF this refl, where s = s and buf = buf and w = v]
  have send_run: "\<exists>used k. send_script w = used @ send_script w'
      \<and> (\<forall>out \<in> set (butlast used). send_progress out \<or> send_transient out \<or> out = Sent 0)
      \<and> length used
          \<le> length data + length (filter (\<lambda>out. send_transient out \<or> out = Sent 0) used)
      \<and> sent w' = sent w @ take k data \<and> (r = 0 \<longrightarrow> k = length data)"
    if run: "do_complete_send s data len w = Some (r, w')"
  proof -
    from do_complete_send_run [OF run] assms(1) obtain used
      where "send_script w = used @ send_script w'"
        "\<forall>out \<in> set (butlast used). send_progress out \<or> send_transient out \<or> out = Sent 0"
        "length used
           \<le> length data + length (filter (\<lambda>out. send_transient out \<or> out = Sent 0) used)"
      by auto
    moreover from do_complete_send_bytes [OF run assms(1)] obtain k
      where "sent w' = sent w @ take k data" "r = 0 \<longrightarrow> k = length data"
      by blast
    ultimately show ?thesis by blast
  qed
  have recv_run: "\<exists>used new. recv_script v = used @ recv_script v'
      \<and> (\<forall>out \<in> set (butlast used). recv_progress out \<or> recv_transient out)
      \<and> length used \<le> nat n + length (filter recv_transient used)
      \<and> buf' = buf @ new \<and> rcvd v' = rcvd v @ new
      \<and> (rr = 0) = (int (length new) = n)"
    if run: "do_complete_recv s buf n v = Some (rr, buf', v')"
  proof -
    from do_complete_recv_run [OF run] obtain used
      where "recv_script v = used @ recv_script v'"
        "\<forall>out \<in> set (butlast used). recv_progress out \<or> recv_transient out"
        "length used \<le> nat n + length (filter recv_transient used)"
      by blast
    moreover from do_complete_recv_bytes [OF run assms(2)] obtain new
      where "buf' = buf @ new" "rcvd v' = rcvd v @ new" "(rr = 0) = (int (length new) = n)"
      by blast
    ultimately show ?thesis by blast
  qed
  have send_returns: "\<exists>r w'. do_complete_send s data len w = Some (r, w')"
    if "(\<exists>out \<in> set (send_script w). send_ends out)
        \<or> length data \<le> length (filter send_progress (send_script w))"
    using do_complete_send_returns [OF refl, of w len s data] that assms(1) by simp
  have recv_returns: "\<exists>rr buf' v'. do_complete_recv s buf n v = Some (rr, buf', v')"
    if "(\<exists>out \<in> set (recv_script v). recv_ends out)
        \<or> nat n \<le> length (filter recv_progress (recv_script v))"
    using do_complete_recv_returns [OF refl, of v n s buf] that by simp
  from send_spec recv_spec send_run recv_run send_returns recv_returns show ?thesis
    by blast
qed

text \<open>
  Three bytes to send. An interrupted \<^verbatim>\<open>send\<close> and one that returns 0 are repeated with
  all three bytes asked for; then one byte goes out and the next round asks for two, which
  a \<^verbatim>\<open>send\<close> ready to take five accepts: the loop returns 0 and leaves the outcome that
  follows unused. After a transfer of two bytes a broken pipe (\<^verbatim>\<open>EPIPE\<close>, 32) ends the loop
  with -1, two bytes sent. Two bytes to read come in after a \<^verbatim>\<open>recv\<close> that would block,
  the second from a segment of two of which one is asked for; and a close after the first
  byte ends the read loop with 1.
\<close>

theorem complete_loops_progress_witness:
  "write_seen (do_complete_send 3 [1, 2, 3] 3
       (tcp_world\<lparr>send_script := [SendErr 4, Sent 0, Sent 1, Sent 5, SendErr 32]\<rparr>))
     = Some (0, [1, 2, 3], [EvSend 3 3, EvSend 3 3, EvSend 3 3, EvSend 3 2], [SendErr 32])
   \<and> write_seen (do_complete_send 3 [1, 2, 3] 3
       (tcp_world\<lparr>send_script := [Sent 2, SendErr 32, Sent 1]\<rparr>))
     = Some (-1, [1, 2], [EvSend 3 3, EvSend 3 1], [Sent 1])
   \<and> read_seen (do_complete_recv 3 [] 2
       (tcp_world\<lparr>recv_script := [RecvErr 11, RecvData [7], RecvData [8, 9]]\<rparr>))
     = Some (0, [7, 8], [7, 8], [EvRecv 3 2, EvRecv 3 2, EvRecv 3 1], [])
   \<and> read_seen (do_complete_recv 3 [] 2
       (tcp_world\<lparr>recv_script := [RecvData [7], RecvData [], RecvData [8]]\<rparr>))
     = Some (1, [7], [7], [EvRecv 3 2, EvRecv 3 1], [RecvData [8]])
   \<and> do_complete_send 3 [1, 2, 3] 3
       (tcp_world\<lparr>send_script := [SendErr 4, Sent 0, Sent 1, Sent 1, Sent 1]\<rparr>)
     = Some (0, tcp_world\<lparr>errno := 4, sent := [1, 2, 3],
                  trace := [EvSend 3 3, EvSend 3 3, EvSend 3 3, EvSend 3 2, EvSend 3 1]\<rparr>)
   \<and> do_complete_recv 3 [] 2
       (tcp_world\<lparr>recv_script := [RecvErr 11, RecvData [7], RecvData [8]]\<rparr>)
     = Some (0, [7, 8], tcp_world\<lparr>errno := 11, rcvd := [7, 8],
                  trace := [EvRecv 3 2, EvRecv 3 2, EvRecv 3 1]\<rparr>)
   \<and> (\<exists>k. [1, 2, 3] = take k [1, 2, 3 :: byte])
   \<and> (\<exists>new. [7, 8 :: byte] = [] @ new \<and> int (length new) = 2)"
proof -
  let ?a = "tcp_world\<lparr>send_script := [SendErr 4, Sent 0, Sent 1, Sent 5, SendErr 32]\<rparr>"
  let ?b = "tcp_world\<lparr>send_script := [Sent 2, SendErr 32, Sent 1]\<rparr>"
  let ?c = "tcp_world\<lparr>recv_script := [RecvErr 11, RecvData [7], RecvData [8, 9]]\<rparr>"
  let ?d = "tcp_world\<lparr>recv_script := [RecvData [7], RecvData [], RecvData [8]]\<rparr>"
  let ?w = "tcp_world\<lparr>send_script := [SendErr 4, Sent 0, Sent 1, Sent 1, Sent 1]\<rparr>"
  let ?w' = "tcp_world\<lparr>errno := 4, sent := [1, 2, 3],
                  trace := [EvSend 3 3, EvSend 3 3, EvSend 3 3, EvSend 3 2, EvSend 3 1]\<rparr>"
  let ?v = "tcp_world\<lparr>recv_script := [RecvErr 11, RecvData [7], RecvData [8]]\<rparr>"
  let ?v' = "tcp_world\<lparr>errno := 11, rcvd := [7, 8],
                  trace := [EvRecv 3 2, EvRecv 3 2, EvRecv 3 1]\<rparr>"
  have len: "3 = int (length [1, 2, 3 :: byte])" and n: "(0::int) \<le> 2"
    by simp_all
  have a: "complete_write_spec (send_script ?a) (length [1, 2, 3 :: byte])
      = Some (0, 3, [3, 3, 3, 2], [SendErr 32])"
    by (simp add: write_round_def EINTR_def EAGAIN_def tcp_world_def)
  have b: "complete_write_spec (send_script ?b) (length [1, 2, 3 :: byte])
      = Some (-1, 2, [3, 1], [Sent 1])"
    by (simp add: write_round_def EINTR_def EAGAIN_def tcp_world_def)
  have c: "complete_read_spec (recv_script ?c) (nat 2) = Some (0, [7, 8], [2, 2, 1], [])"
    by (simp add: read_round_def EINTR_def EAGAIN_def tcp_world_def numeral_2_eq_2)
  have d: "complete_read_spec (recv_script ?d) (nat 2) = Some (1, [7], [2, 1], [RecvData [8]])"
    by (simp add: read_round_def EINTR_def EAGAIN_def tcp_world_def numeral_2_eq_2)
  have before: "sent tcp_world = []" "rcvd tcp_world = []" "trace tcp_world = []"
    by (simp_all add: tcp_world_def)
  from complete_loops_progress [OF len n, where s = 3 and w = ?a, THEN conjunct1]
  have one: "write_seen (do_complete_send 3 [1, 2, 3] 3 ?a)
      = Some (0, [1, 2, 3], [EvSend 3 3, EvSend 3 3, EvSend 3 3, EvSend 3 2], [SendErr 32])"
    by (simp only: a) (simp add: before)
  from complete_loops_progress [OF len n, where s = 3 and w = ?b, THEN conjunct1]
  have two': "write_seen (do_complete_send 3 [1, 2, 3] 3 ?b)
      = Some (-1, [1, 2], [EvSend 3 3, EvSend 3 1], [Sent 1])"
    by (simp only: b) (simp add: before)
  from complete_loops_progress [OF len n, where s = 3 and v = ?c and buf = "[]",
      THEN conjunct2, THEN conjunct1]
  have three': "read_seen (do_complete_recv 3 [] 2 ?c)
      = Some (0, [7, 8], [7, 8], [EvRecv 3 2, EvRecv 3 2, EvRecv 3 1], [])"
    by (simp only: c) (simp add: before)
  from complete_loops_progress [OF len n, where s = 3 and v = ?d and buf = "[]",
      THEN conjunct2, THEN conjunct1]
  have four: "read_seen (do_complete_recv 3 [] 2 ?d)
      = Some (1, [7], [7], [EvRecv 3 2, EvRecv 3 1], [RecvData [8]])"
    by (simp only: d) (simp add: before)
  note loops = complete_loops_progress [OF len n, where s = 3 and w = ?w and v = ?v
      and buf = "[]" and r = 0 and w' = ?w' and rr = 0 and buf' = "[7, 8]" and v' = ?v',
      THEN conjunct2, THEN conjunct2]
  have enough: "length [1, 2, 3 :: byte] \<le> length (filter send_progress (send_script ?w))"
    "nat 2 \<le> length (filter recv_progress (recv_script ?v))"
    by (simp_all add: tcp_world_def send_progress_def recv_progress_def)
  from loops [THEN conjunct2, THEN conjunct2, THEN conjunct1, rule_format, OF disjI2, OF enough(1)]
  have "\<exists>r w'. do_complete_send 3 [1, 2, 3] 3 ?w = Some (r, w')" .
  from loops [THEN conjunct2, THEN conjunct2, THEN conjunct2, rule_format, OF disjI2, OF enough(2)]
  have "\<exists>rr buf' v'. do_complete_recv 3 [] 2 ?v = Some (rr, buf', v')" .
  have out: "do_complete_send 3 [1, 2, 3] 3 ?w = Some (0, ?w')"
    by (simp add: do_complete_send.simps call_defs constant_defs tcp_world_def)
  have inp: "do_complete_recv 3 [] 2 ?v = Some (0, [7, 8], ?v')"
    by (simp add: do_complete_recv.simps call_defs constant_defs tcp_world_def)
  from loops [THEN conjunct1, rule_format, OF out]
  have "\<exists>k. sent ?w' = sent ?w @ take k [1, 2, 3]"
    by blast
  then have k: "\<exists>k. [1, 2, 3] = take k [1, 2, 3 :: byte]"
    by (simp add: tcp_world_def)
  from loops [THEN conjunct2, THEN conjunct1, rule_format, OF inp]
  have new: "\<exists>new. [7, 8 :: byte] = [] @ new \<and> int (length new) = 2"
    by blast
  from one two' three' four out inp k new show ?thesis by simp
qed

text \<open>
  Without the case of a \<^verbatim>\<open>send\<close> that returns 0 the statement fails. With one byte to
  send and a \<^verbatim>\<open>send\<close> that first returns 0 (no byte taken and no error: neither progress
  nor a transient condition) the write loop calls \<^verbatim>\<open>send\<close> again with the same cursor and
  length; it has no branch for this result, where the read loop has \<^verbatim>\<open>if (r == 0) break\<close>.
\<close>

theorem zero_send_is_retried:
  "do_complete_send 3 [0x04] 1 (tcp_world\<lparr>send_script := [Sent 0, Sent 1]\<rparr>)
     = Some (0, tcp_world\<lparr>sent := [0x04], trace := [EvSend 3 1, EvSend 3 1]\<rparr>)
   \<and> \<not> send_progress (Sent 0) \<and> \<not> send_transient (Sent 0)"
  by (simp add: do_complete_send.simps call_defs constant_defs tcp_world_def
      send_progress_def send_transient_def)

subsection \<open>C10\<close>

text \<open>
  C10. A call that succeeds through the proxy (it has called \<^verbatim>\<open>send\<close>) returns with the
  \<^verbatim>\<open>errno\<close> its system calls have left: the value set by the last of them that failed
  (a refused candidate, an interrupted \<^verbatim>\<open>send\<close> or \<^verbatim>\<open>recv\<close>), and the value before
  the call only if none failed. A call that succeeds without \<^verbatim>\<open>send\<close> has passed
  through: its result is that of the real \<^verbatim>\<open>connect\<close> started with the \<^verbatim>\<open>errno\<close> of before
  the call, whatever the option queries did to it.
\<close>

theorem errno_after_success:
  assumes "connect e servers s addr len w = Some (0, w')"
  shows "(send_script w' \<noteq> send_script w \<longrightarrow>
            (\<exists>uc us ur. conn_script w = uc @ conn_script w'
               \<and> send_script w = us @ send_script w'
               \<and> recv_script w = ur @ recv_script w'
               \<and> errno w' =
                   fold recv_errno ur (fold send_errno us (fold conn_errno uc (errno w)))))
       \<and> (send_script w' = send_script w \<longrightarrow>
            (\<exists>evs. real_connect s addr len (w\<lparr>trace := trace w @ evs\<rparr>) = Some (0, w')))"
  using assms
proof (cases rule: connect_cases)
  case (pass evs)
  from real_connect_frame [OF pass] pass show ?thesis by auto
next
  case (tunnel sa)
  from tunnel(3) have moved: "send_script w' \<noteq> send_script w"
  proof (cases rule: use_socks_cases)
    case (granted server w3 w4 response w5)
    from do_complete_send_run [OF granted(3)] obtain us
      where "send_script w3 = us @ send_script w4" "us \<noteq> []"
      by (auto simp: sizeof_request_def)
    with try_servers_frame [OF granted(1)] do_complete_recv_frame [OF granted(4)] granted(7)
    show ?thesis by (auto simp: store_flags_result fcntl_setfl_def log_def)
  qed (auto dest: goto_error_result)
  from use_socks_errno [OF tunnel(3)] moved show ?thesis by (auto simp: Let_def)
qed

text \<open>
  \<^verbatim>\<open>errno\<close> is 0 before the call; the first address of the proxy refuses (111), the second
  accepts, and the first \<^verbatim>\<open>recv\<close> is interrupted (\<^verbatim>\<open>EINTR\<close>, 4): the call returns 0 with
  \<^verbatim>\<open>errno\<close> 4. On a descriptor that is no socket, with \<^verbatim>\<open>errno\<close> 5 before the call, the
  option query fails with \<^verbatim>\<open>ENOTSOCK\<close> (88): the real \<^verbatim>\<open>connect\<close> is called with \<^verbatim>\<open>errno\<close> 5
  again, and 5 it is after its success.
\<close>

theorem errno_after_success_witness:
  "connect LittleEndian [proxy, proxy2] 3 (Some target) 16
     (tcp_world\<lparr>conn_script := [ConnErr 111, ConnOk], send_script := [Sent 9],
        recv_script := [RecvErr 4, RecvData [0, 0x5A, 0, 0, 0, 0, 0, 0]]\<rparr>)
   = Some (0,
       tcp_world\<lparr>errno := 4, sent := [4, 1, 0, 80, 1, 2, 3, 4, 0],
         rcvd := [0, 0x5A, 0, 0, 0, 0, 0, 0],
         trace := [EvGetsockopt 3 SO_TYPE, EvGetsockopt 3 SO_DOMAIN, EvGetfl 3, EvSetfl 3 2,
                   EvConnect 3 (Some (ai_addr proxy)) 16, EvConnect 3 (Some (ai_addr proxy2)) 16,
                   EvSend 3 9, EvRecv 3 8, EvRecv 3 8, EvSetfl 3 2]\<rparr>)
   \<and> errno tcp_world = 0
   \<and> connect LittleEndian [proxy] 3 (Some target) 16
       (tcp_world\<lparr>errno := 5, sockopts := (\<lambda>s name. GsoFail 88), conn_script := [ConnOk]\<rparr>)
     = Some (0,
         tcp_world\<lparr>errno := 5, sockopts := (\<lambda>s name. GsoFail 88),
           trace := [EvGetsockopt 3 SO_TYPE, EvConnect 3 (Some target) 16]\<rparr>)"
proof -
  let ?w = "tcp_world\<lparr>conn_script := [ConnErr 111, ConnOk], send_script := [Sent 9],
        recv_script := [RecvErr 4, RecvData [0, 0x5A, 0, 0, 0, 0, 0, 0]]\<rparr>"
  let ?w' = "tcp_world\<lparr>errno := 4, sent := [4, 1, 0, 80, 1, 2, 3, 4, 0],
         rcvd := [0, 0x5A, 0, 0, 0, 0, 0, 0],
         trace := [EvGetsockopt 3 SO_TYPE, EvGetsockopt 3 SO_DOMAIN, EvGetfl 3, EvSetfl 3 2,
                   EvConnect 3 (Some (ai_addr proxy)) 16, EvConnect 3 (Some (ai_addr proxy2)) 16,
                   EvSend 3 9, EvRecv 3 8, EvRecv 3 8, EvSetfl 3 2]\<rparr>"
  let ?v = "tcp_world\<lparr>errno := 5, sockopts := (\<lambda>s name. GsoFail 88), conn_script := [ConnOk]\<rparr>"
  let ?v' = "tcp_world\<lparr>errno := 5, sockopts := (\<lambda>s name. GsoFail 88),
           trace := [EvGetsockopt 3 SO_TYPE, EvConnect 3 (Some target) 16]\<rparr>"
  have through: "connect LittleEndian [proxy, proxy2] 3 (Some target) 16 ?w = Some (0, ?w')"
    by (simp add: library_defs call_defs constant_defs example_defs fun_eq_iff)
  have past: "connect LittleEndian [proxy] 3 (Some target) 16 ?v = Some (0, ?v')"
    by (simp add: library_defs call_defs constant_defs example_defs fun_eq_iff)
  have moved: "send_script ?w' \<noteq> send_script ?w" and still: "send_script ?v' = send_script ?v"
    by (simp_all add: tcp_world_def)
  from errno_after_success [OF through, THEN conjunct1, rule_format, OF moved]
  have "\<exists>uc us ur. errno ?w'
      = fold recv_errno ur (fold send_errno us (fold conn_errno uc (errno ?w)))"
    by blast
  moreover from errno_after_success [OF past, THEN conjunct2, rule_format, OF still]
  have "\<exists>evs. real_connect 3 (Some target) 16 (?v\<lparr>trace := trace ?v @ evs\<rparr>) = Some (0, ?v')" .
  ultimately show ?thesis using through past by (simp add: tcp_world_def)
qed

end
